theory Spec2Isabelle
  imports Main "HOL-Library.AList"
begin

section \<open>The embedded key-value store\<close>

text \<open>
  A bucket of the store holds keys; each key carries either a leaf value (bytes) or a
  nested bucket. A bucket is modelled by its content, an association list; the handle
  that the Go code holds on a nested bucket is modelled by reading the content out of
  the parent and writing the changed content back (\<open>set_bucket\<close>). The store visits
  keys in byte order; the model visits them in list order, and no property below
  depends on the order.
\<close>

datatype node = Leaf string | Nested "(string \<times> node) list"

type_synonym bucket = "(string \<times> node) list"

text \<open>
  Errors are identified by their cause; the wrapping message is dropped. The first three
  are the errors of the \<open>errdefs\<close> package, the next seven those of the store.
  \<open>ErrUnmarshalTime\<close> is the failure to decode a timestamp leaf, and \<open>NilBucketPanic\<close>
  the nil dereference of \<open>ListScenarios\<close> when a key of the scenarios bucket is not a
  bucket (\<open>bkt.Bucket(k)\<close> is nil and \<open>readScenario\<close> reads through it).
\<close>

datatype error =
    ErrNotFound | ErrAlreadyExists | ErrInvalidArgument
  | ErrBucketExists | ErrBucketNotFound | ErrBucketNameRequired
  | ErrKeyRequired | ErrKeyTooLarge | ErrValueTooLarge | ErrIncompatibleValue
  | ErrUnmarshalTime | NilBucketPanic

text \<open>
  The primitives are those of the store's library (\<open>go.etcd.io/bbolt\<close>), which the
  program imports: \<open>Bucket\<close> and \<open>Get\<close> return nil for a missing key and for a key
  of the other kind; \<open>CreateBucket\<close>, \<open>DeleteBucket\<close> and \<open>Put\<close> check the key and
  what it carries before they write. Lengths are Go \<open>int\<close>s.
\<close>

definition MaxKeySize :: int where
  "MaxKeySize = 32768"

definition MaxValueSize :: int where
  "MaxValueSize = 2147483646"

definition Bucket :: "bucket \<Rightarrow> string \<Rightarrow> bucket option" where
  "Bucket b name =
     (case map_of b name of Some (Nested c) \<Rightarrow> Some c | Some (Leaf v) \<Rightarrow> None | None \<Rightarrow> None)"

definition Get :: "bucket \<Rightarrow> string \<Rightarrow> string option" where
  "Get b key =
     (case map_of b key of Some (Leaf v) \<Rightarrow> Some v | Some (Nested c) \<Rightarrow> None | None \<Rightarrow> None)"

definition set_bucket :: "bucket \<Rightarrow> string \<Rightarrow> bucket \<Rightarrow> bucket" where
  "set_bucket b name c = AList.update name (Nested c) b"

definition CreateBucket :: "bucket \<Rightarrow> string \<Rightarrow> error + bucket" where
  "CreateBucket b key =
     (if key = [] then Inl ErrBucketNameRequired
      else (case map_of b key of
              Some (Nested c) \<Rightarrow> Inl ErrBucketExists
            | Some (Leaf v) \<Rightarrow> Inl ErrIncompatibleValue
            | None \<Rightarrow> Inr (AList.update key (Nested []) b)))"

definition DeleteBucket :: "bucket \<Rightarrow> string \<Rightarrow> error + bucket" where
  "DeleteBucket b key =
     (case map_of b key of
        None \<Rightarrow> Inl ErrBucketNotFound
      | Some (Leaf v) \<Rightarrow> Inl ErrIncompatibleValue
      | Some (Nested c) \<Rightarrow> Inr (AList.delete key b))"

definition Put :: "bucket \<Rightarrow> string \<Rightarrow> string \<Rightarrow> error + bucket" where
  "Put b key val =
     (if key = [] then Inl ErrKeyRequired
      else if int (length key) > MaxKeySize then Inl ErrKeyTooLarge
      else if int (length val) > MaxValueSize then Inl ErrValueTooLarge
      else (case map_of b key of
              Some (Nested c) \<Rightarrow> Inl ErrIncompatibleValue
            | Some (Leaf v) \<Rightarrow> Inr (AList.update key (Leaf val) b)
            | None \<Rightarrow> Inr (AList.update key (Leaf val) b)))"

text \<open>
  \<open>ForEach\<close> calls \<open>fn k v\<close> on every key; \<open>v\<close> is nil (\<open>None\<close>) for a nested bucket.
  The callback's captured variables are the threaded state \<open>s\<close>.
\<close>

fun ForEach :: "bucket \<Rightarrow> (string \<Rightarrow> string option \<Rightarrow> 's \<Rightarrow> error + 's) \<Rightarrow> 's \<Rightarrow> error + 's" where
  "ForEach [] fn s = Inr s"
| "ForEach ((k, n) # b) fn s =
     (case fn k (case n of Leaf v \<Rightarrow> Some v | Nested c \<Rightarrow> None) s of
        Inl e \<Rightarrow> Inl e
      | Inr s' \<Rightarrow> ForEach b fn s')"

text \<open>\<open>string(v)\<close> of a nil byte slice is the empty string.\<close>

definition string_of :: "string option \<Rightarrow> string" where
  "string_of v = (case v of None \<Rightarrow> [] | Some s \<Rightarrow> s)"

section \<open>The transaction coordinator\<close>

text \<open>
  Modelled from the spec: the \<open>DB\<close> type with its \<open>View\<close> and \<open>Update\<close> methods is not
  among the sources. A transaction sees the root of the store, which holds buckets only.
  \<open>Update\<close> runs the callback on the root; an error from the callback rolls every change
  back, a nil result commits. \<open>View\<close> runs the callback read-only. The variables the
  callback captures by reference are the threaded state \<open>s\<close>, which is not rolled back.
\<close>

type_synonym tx = "(string \<times> bucket) list"

definition Update :: "tx \<Rightarrow> (tx \<Rightarrow> 's \<Rightarrow> (error + tx) \<times> 's) \<Rightarrow> 's \<Rightarrow> error option \<times> tx \<times> 's" where
  "Update db fn s =
     (case fn db s of
        (Inl e, s') \<Rightarrow> (Some e, db, s')
      | (Inr db', s') \<Rightarrow> (None, db', s'))"

definition View :: "tx \<Rightarrow> (tx \<Rightarrow> 's \<Rightarrow> error + 's) \<Rightarrow> 's \<Rightarrow> error + 's" where
  "View db fn s = fn db s"

section \<open>The namespace schema\<close>

text \<open>
  Modelled from the spec: the reserved key names (\<open>bucketKey...\<close>) and the two helpers
  \<open>getScenariosBucket\<close> and \<open>createScenariosBucket\<close> are declared outside the sources.
  Each entity type owns one top-level bucket; the names are pairwise distinct and
  non-empty, which is all that the properties below use.
\<close>

definition bucketKeyScenarios :: string where "bucketKeyScenarios = ''scenarios''"
definition bucketKeyID :: string where "bucketKeyID = ''id''"
definition bucketKeyCreatedAt :: string where "bucketKeyCreatedAt = ''createdAt''"
definition bucketKeyUpdatedAt :: string where "bucketKeyUpdatedAt = ''updatedAt''"
definition bucketKeyDefinition :: string where "bucketKeyDefinition = ''definition''"
definition bucketKeyObjects :: string where "bucketKeyObjects = ''objects''"
definition bucketKeySeed :: string where "bucketKeySeed = ''seed''"
definition bucketKeyBenchmark :: string where "bucketKeyBenchmark = ''benchmark''"
definition bucketKeyType :: string where "bucketKeyType = ''type''"
definition bucketKeyReference :: string where "bucketKeyReference = ''reference''"

definition getScenariosBucket :: "tx \<Rightarrow> bucket option" where
  "getScenariosBucket tx = map_of tx bucketKeyScenarios"

definition createScenariosBucket :: "tx \<Rightarrow> error + tx \<times> bucket" where
  "createScenariosBucket tx =
     (case map_of tx bucketKeyScenarios of
        Some b \<Rightarrow> Inr (tx, b)
      | None \<Rightarrow> Inr (AList.update bucketKeyScenarios [] tx, []))"

definition setScenariosBucket :: "tx \<Rightarrow> bucket \<Rightarrow> tx" where
  "setScenariosBucket tx b = AList.update bucketKeyScenarios b tx"

section \<open>The data model\<close>

text \<open>
  A Go map is an association list with distinct keys, in the order in which \<open>range\<close>
  happens to visit it; the nil map and the empty map are both \<open>[]\<close>. An instant is a
  natural number of clock ticks.
\<close>

record ObjectDefinition =
  Type :: string
  Reference :: string
  Chunker :: string
  Layout :: string

record ScenarioDefinition =
  Objects :: "(string \<times> ObjectDefinition) list"
  Seed :: "(string \<times> string) list"
  Benchmark :: "(string \<times> string) list"

record Scenario =
  ID :: string
  Definition :: ScenarioDefinition
  CreatedAt :: nat
  UpdatedAt :: nat

definition zeroObject :: ObjectDefinition where
  "zeroObject = \<lparr>Type = [], Reference = [], Chunker = [], Layout = []\<rparr>"

definition zeroDefinition :: ScenarioDefinition where
  "zeroDefinition = \<lparr>Objects = [], Seed = [], Benchmark = []\<rparr>"

definition zeroScenario :: Scenario where
  "zeroScenario = \<lparr>ID = [], Definition = zeroDefinition, CreatedAt = 0, UpdatedAt = 0\<rparr>"

section \<open>The timestamp helper\<close>

text \<open>
  Modelled from the spec: \<open>ReadTimestamps\<close> and \<open>WriteTimestamps\<close> are not among the
  sources. The helper reserves two leaf keys for the created and updated instants and
  leaf values are text; an instant is written in decimal. Reading leaves a field as it
  is when its leaf is absent and fails when the leaf does not decode.
\<close>

definition digit_char :: "nat \<Rightarrow> char" where
  "digit_char d = char_of (48 + d)"

definition is_digit :: "char \<Rightarrow> bool" where
  "is_digit c = (48 \<le> (of_char c :: nat) \<and> (of_char c :: nat) \<le> 57)"

fun marshalTime :: "nat \<Rightarrow> string" where
  "marshalTime n =
     (if n < 10 then [digit_char n] else marshalTime (n div 10) @ [digit_char (n mod 10)])"

declare marshalTime.simps [simp del]

fun parse_digits :: "string \<Rightarrow> nat \<Rightarrow> nat option" where
  "parse_digits [] acc = Some acc"
| "parse_digits (c # cs) acc =
     (if is_digit c then parse_digits cs (10 * acc + (of_char c - 48)) else None)"

definition unmarshalTime :: "string \<Rightarrow> nat option" where
  "unmarshalTime s = (if s = [] then None else parse_digits s 0)"

definition WriteTimestamps :: "bucket \<Rightarrow> nat \<Rightarrow> nat \<Rightarrow> error + bucket" where
  "WriteTimestamps bkt created updated =
     (case Put bkt bucketKeyCreatedAt (marshalTime created) of
        Inl e \<Rightarrow> Inl e
      | Inr bkt1 \<Rightarrow> Put bkt1 bucketKeyUpdatedAt (marshalTime updated))"

definition readTimestamp :: "bucket \<Rightarrow> string \<Rightarrow> nat \<Rightarrow> error + nat" where
  "readTimestamp bkt key t =
     (case Get bkt key of
        None \<Rightarrow> Inr t
      | Some v \<Rightarrow> (case unmarshalTime v of None \<Rightarrow> Inl ErrUnmarshalTime | Some t' \<Rightarrow> Inr t'))"

definition ReadTimestamps :: "bucket \<Rightarrow> Scenario \<Rightarrow> error + Scenario" where
  "ReadTimestamps bkt scenario =
     (case readTimestamp bkt bucketKeyCreatedAt (CreatedAt scenario) of
        Inl e \<Rightarrow> Inl e
      | Inr c \<Rightarrow>
          (case readTimestamp bkt bucketKeyUpdatedAt (UpdatedAt scenario) of
             Inl e \<Rightarrow> Inl e
           | Inr u \<Rightarrow> Inr (scenario\<lparr>CreatedAt := c, UpdatedAt := u\<rparr>)))"

section \<open>The field codec\<close>

text \<open>\<open>m[k] = v\<close> on a Go map.\<close>

definition map_set :: "(string \<times> 'v) list \<Rightarrow> string \<Rightarrow> 'v \<Rightarrow> (string \<times> 'v) list" where
  "map_set m k v = AList.update k v m"

text \<open>The loop \<open>for _, f := range []field{...} { err = bkt.Put(f.key, f.value) ... }\<close>.\<close>

fun putFields :: "bucket \<Rightarrow> (string \<times> string) list \<Rightarrow> error + bucket" where
  "putFields bkt [] = Inr bkt"
| "putFields bkt ((key, val) # fs) =
     (case Put bkt key val of Inl e \<Rightarrow> Inl e | Inr bkt' \<Rightarrow> putFields bkt' fs)"

subsection \<open>String maps\<close>

definition readMap :: "bucket \<Rightarrow> string \<Rightarrow> error + (string \<times> string) list" where
  "readMap bkt name =
     (case Bucket bkt name of
        None \<Rightarrow> Inr []
      | Some mbkt \<Rightarrow> ForEach mbkt (\<lambda>k v m. Inr (map_set m k (string_of v))) [])"

text \<open>
  The loop of \<open>writeMap\<close> over the entries still to visit: an entry with an empty value
  is deleted from the map, any other is put into the bucket. The second component is
  what is left of the map (the visited part pruned, the rest as it was when a put
  fails).
\<close>

fun writeMap_range :: "bucket \<Rightarrow> (string \<times> string) list \<Rightarrow> (error + bucket) \<times> (string \<times> string) list" where
  "writeMap_range mbkt [] = (Inr mbkt, [])"
| "writeMap_range mbkt ((k, v) # m) =
     (if v = [] then writeMap_range mbkt m
      else (case Put mbkt k v of
              Inl e \<Rightarrow> (Inl e, (k, v) # m)
            | Inr mbkt' \<Rightarrow>
                (case writeMap_range mbkt' m of (r, m') \<Rightarrow> (r, (k, v) # m'))))"

text \<open>
  A Go map is a reference: the deletions that \<open>writeMap\<close> makes are seen by whoever holds
  the map, so the pruned map is returned next to the result.
\<close>

definition writeMap :: "bucket \<Rightarrow> string \<Rightarrow> (string \<times> string) list \<Rightarrow> (error + bucket) \<times> (string \<times> string) list" where
  "writeMap bkt name m =
     (case (case Bucket bkt name of
              Some mbkt \<Rightarrow> DeleteBucket bkt name
            | None \<Rightarrow> Inr bkt) of
        Inl e \<Rightarrow> (Inl e, m)
      | Inr bkt1 \<Rightarrow>
          if length m = 0 then (Inr bkt1, m)
          else (case CreateBucket bkt1 name of
                  Inl e \<Rightarrow> (Inl e, m)
                | Inr bkt2 \<Rightarrow>
                    (case writeMap_range [] m of
                       (Inl e, m') \<Rightarrow> (Inl e, m')
                     | (Inr mbkt, m') \<Rightarrow> (Inr (set_bucket bkt2 name mbkt), m'))))"

subsection \<open>Objects\<close>

definition readObject :: "bucket \<Rightarrow> error + ObjectDefinition" where
  "readObject nbkt =
     ForEach nbkt
       (\<lambda>k v object.
          if k = bucketKeyType then Inr (object\<lparr>Type := string_of v\<rparr>)
          else if k = bucketKeyReference then Inr (object\<lparr>Reference := string_of v\<rparr>)
          else Inr object)
       zeroObject"

definition readObjects :: "bucket \<Rightarrow> error + (string \<times> ObjectDefinition) list" where
  "readObjects bkt =
     (case Bucket bkt bucketKeyObjects of
        None \<Rightarrow> Inr []
      | Some obkt \<Rightarrow>
          ForEach obkt
            (\<lambda>name v objects.
               case Bucket obkt name of
                 None \<Rightarrow> Inr objects
               | Some nbkt \<Rightarrow>
                   (case readObject nbkt of
                      Inl e \<Rightarrow> Inl e
                    | Inr object \<Rightarrow> Inr (map_set objects name object)))
            [])"

fun writeObjects_range :: "bucket \<Rightarrow> (string \<times> ObjectDefinition) list \<Rightarrow> error + bucket" where
  "writeObjects_range obkt [] = Inr obkt"
| "writeObjects_range obkt ((name, object) # objects) =
     (case CreateBucket obkt name of
        Inl e \<Rightarrow> Inl e
      | Inr obkt1 \<Rightarrow>
          (case putFields [] [(bucketKeyType, Type object), (bucketKeyReference, Reference object)] of
             Inl e \<Rightarrow> Inl e
           | Inr nbkt \<Rightarrow> writeObjects_range (set_bucket obkt1 name nbkt) objects))"

definition writeObjects :: "bucket \<Rightarrow> (string \<times> ObjectDefinition) list \<Rightarrow> error + bucket" where
  "writeObjects bkt objects =
     (case (case Bucket bkt bucketKeyObjects of
              Some obkt \<Rightarrow> DeleteBucket bkt bucketKeyObjects
            | None \<Rightarrow> Inr bkt) of
        Inl e \<Rightarrow> Inl e
      | Inr bkt1 \<Rightarrow>
          if length objects = 0 then Inr bkt1
          else (case CreateBucket bkt1 bucketKeyObjects of
                  Inl e \<Rightarrow> Inl e
                | Inr bkt2 \<Rightarrow>
                    (case writeObjects_range [] objects of
                       Inl e \<Rightarrow> Inl e
                     | Inr obkt \<Rightarrow> Inr (set_bucket bkt2 bucketKeyObjects obkt))))"

subsection \<open>Definitions and records\<close>

definition readDefinition :: "bucket \<Rightarrow> error + ScenarioDefinition" where
  "readDefinition bkt =
     (case Bucket bkt bucketKeyDefinition of
        None \<Rightarrow> Inr zeroDefinition
      | Some dbkt \<Rightarrow>
          (case readObjects dbkt of
             Inl e \<Rightarrow> Inl e
           | Inr objects \<Rightarrow>
               (case readMap dbkt bucketKeySeed of
                  Inl e \<Rightarrow> Inl e
                | Inr seed \<Rightarrow>
                    (case readMap dbkt bucketKeyBenchmark of
                       Inl e \<Rightarrow> Inl e
                     | Inr benchmark \<Rightarrow>
                         Inr \<lparr>Objects = objects, Seed = seed, Benchmark = benchmark\<rparr>))))"

text \<open>
  \<open>writeDefinition\<close> receives the definition by value, but its two string maps are
  shared with the caller: the pruned definition is returned next to the result. The
  two maps are taken to be distinct map objects.
\<close>

definition writeDefinition :: "bucket \<Rightarrow> ScenarioDefinition \<Rightarrow> (error + bucket) \<times> ScenarioDefinition" where
  "writeDefinition bkt sdef =
     (case (case Bucket bkt bucketKeyDefinition of
              Some dbkt \<Rightarrow> DeleteBucket bkt bucketKeyDefinition
            | None \<Rightarrow> Inr bkt) of
        Inl e \<Rightarrow> (Inl e, sdef)
      | Inr bkt1 \<Rightarrow>
          (case CreateBucket bkt1 bucketKeyDefinition of
             Inl e \<Rightarrow> (Inl e, sdef)
           | Inr bkt2 \<Rightarrow>
               (case writeObjects [] (Objects sdef) of
                  Inl e \<Rightarrow> (Inl e, sdef)
                | Inr dbkt1 \<Rightarrow>
                    (case writeMap dbkt1 bucketKeySeed (Seed sdef) of
                       (Inl e, seed) \<Rightarrow> (Inl e, sdef\<lparr>Seed := seed\<rparr>)
                     | (Inr dbkt2, seed) \<Rightarrow>
                         (case writeMap dbkt2 bucketKeyBenchmark (Benchmark sdef) of
                            (Inl e, benchmark) \<Rightarrow>
                              (Inl e, sdef\<lparr>Seed := seed, Benchmark := benchmark\<rparr>)
                          | (Inr dbkt3, benchmark) \<Rightarrow>
                              (Inr (set_bucket bkt2 bucketKeyDefinition dbkt3),
                               sdef\<lparr>Seed := seed, Benchmark := benchmark\<rparr>))))))"

definition readScenario :: "bucket \<Rightarrow> Scenario \<Rightarrow> error + Scenario" where
  "readScenario bkt scenario =
     (case ReadTimestamps bkt scenario of
        Inl e \<Rightarrow> Inl e
      | Inr scenario1 \<Rightarrow>
          (case readDefinition bkt of
             Inl e \<Rightarrow> Inl e
           | Inr sdef \<Rightarrow>
               ForEach bkt
                 (\<lambda>k v sc.
                    case v of
                      None \<Rightarrow> Inr sc
                    | Some val \<Rightarrow> if k = bucketKeyID then Inr (sc\<lparr>ID := val\<rparr>) else Inr sc)
                 (scenario1\<lparr>Definition := sdef\<rparr>)))"

definition writeScenario :: "bucket \<Rightarrow> Scenario \<Rightarrow> (error + bucket) \<times> Scenario" where
  "writeScenario bkt scenario =
     (case WriteTimestamps bkt (CreatedAt scenario) (UpdatedAt scenario) of
        Inl e \<Rightarrow> (Inl e, scenario)
      | Inr bkt1 \<Rightarrow>
          (case writeDefinition bkt1 (Definition scenario) of
             (Inl e, sdef) \<Rightarrow> (Inl e, scenario\<lparr>Definition := sdef\<rparr>)
           | (Inr bkt2, sdef) \<Rightarrow>
               (putFields bkt2 [(bucketKeyID, ID scenario)], scenario\<lparr>Definition := sdef\<rparr>)))"

section \<open>Record operations\<close>

text \<open>
  Every operation takes the store and returns its result; the writing ones return the
  store after the call as well. \<open>now\<close> is the reading of the clock that the call takes
  (\<open>time.Now().UTC()\<close>). The body of each transaction callback is a function of its
  own (\<open>..._tx\<close>); a failed call returns the zero record, modelled by the error alone.
\<close>

definition GetScenario :: "tx \<Rightarrow> string \<Rightarrow> error + Scenario" where
  "GetScenario db id' =
     (case View db
             (\<lambda>tx scenario.
                case getScenariosBucket tx of
                  None \<Rightarrow> Inl ErrNotFound
                | Some bkt \<Rightarrow>
                    (case Bucket bkt id' of
                       None \<Rightarrow> Inl ErrNotFound
                     | Some cbkt \<Rightarrow> readScenario cbkt (scenario\<lparr>ID := id'\<rparr>)))
             zeroScenario of
        Inl e \<Rightarrow> Inl e
      | Inr scenario \<Rightarrow> Inr scenario)"

definition ListScenarios :: "tx \<Rightarrow> error + Scenario list" where
  "ListScenarios db =
     (case View db
             (\<lambda>tx scenarios.
                case getScenariosBucket tx of
                  None \<Rightarrow> Inr scenarios
                | Some bkt \<Rightarrow>
                    ForEach bkt
                      (\<lambda>k v scs.
                         case Bucket bkt k of
                           None \<Rightarrow> Inl NilBucketPanic
                         | Some cbkt \<Rightarrow>
                             (case readScenario cbkt (zeroScenario\<lparr>ID := k\<rparr>) of
                                Inl e \<Rightarrow> Inl e
                              | Inr scenario \<Rightarrow> Inr (scs @ [scenario])))
                      scenarios)
             [] of
        Inl e \<Rightarrow> Inl e
      | Inr scenarios \<Rightarrow> Inr scenarios)"

definition CreateScenario_tx :: "nat \<Rightarrow> tx \<Rightarrow> Scenario \<Rightarrow> (error + tx) \<times> Scenario" where
  "CreateScenario_tx now tx scenario =
     (case createScenariosBucket tx of
        Inl e \<Rightarrow> (Inl e, scenario)
      | Inr (tx1, bkt) \<Rightarrow>
          (case CreateBucket bkt (ID scenario) of
             Inl e \<Rightarrow>
               (if e \<noteq> ErrBucketExists then (Inl e, scenario)
                else (Inl ErrAlreadyExists, scenario))
           | Inr bkt1 \<Rightarrow>
               (case writeScenario [] (scenario\<lparr>CreatedAt := now, UpdatedAt := now\<rparr>) of
                  (Inl e, scenario1) \<Rightarrow> (Inl e, scenario1)
                | (Inr cbkt, scenario1) \<Rightarrow>
                    (Inr (setScenariosBucket tx1 (set_bucket bkt1 (ID scenario) cbkt)),
                     scenario1))))"

definition CreateScenario :: "tx \<Rightarrow> nat \<Rightarrow> Scenario \<Rightarrow> (error + Scenario) \<times> tx" where
  "CreateScenario db now scenario =
     (case Update db (CreateScenario_tx now) scenario of
        (Some e, db', scenario') \<Rightarrow> (Inl e, db')
      | (None, db', scenario') \<Rightarrow> (Inr scenario', db'))"

definition UpdateScenario_tx :: "nat \<Rightarrow> tx \<Rightarrow> Scenario \<Rightarrow> (error + tx) \<times> Scenario" where
  "UpdateScenario_tx now tx scenario =
     (case createScenariosBucket tx of
        Inl e \<Rightarrow> (Inl e, scenario)
      | Inr (tx1, bkt) \<Rightarrow>
          (case Bucket bkt (ID scenario) of
             None \<Rightarrow> (Inl ErrNotFound, scenario)
           | Some cbkt \<Rightarrow>
               (case writeScenario cbkt (scenario\<lparr>UpdatedAt := now\<rparr>) of
                  (Inl e, scenario1) \<Rightarrow> (Inl e, scenario1)
                | (Inr cbkt1, scenario1) \<Rightarrow>
                    (Inr (setScenariosBucket tx1 (set_bucket bkt (ID scenario) cbkt1)),
                     scenario1))))"

definition UpdateScenario :: "tx \<Rightarrow> nat \<Rightarrow> Scenario \<Rightarrow> (error + Scenario) \<times> tx" where
  "UpdateScenario db now scenario =
     (if ID scenario = [] then (Inl ErrInvalidArgument, db)
      else (case Update db (UpdateScenario_tx now) scenario of
              (Some e, db', scenario') \<Rightarrow> (Inl e, db')
            | (None, db', scenario') \<Rightarrow> (Inr scenario', db')))"

definition DeleteScenario_tx :: "string \<Rightarrow> tx \<Rightarrow> unit \<Rightarrow> (error + tx) \<times> unit" where
  "DeleteScenario_tx id' tx u =
     (case getScenariosBucket tx of
        None \<Rightarrow> (Inl ErrNotFound, u)
      | Some bkt \<Rightarrow>
          (case DeleteBucket bkt id' of
             Inl e \<Rightarrow> (if e = ErrBucketNotFound then (Inl ErrNotFound, u) else (Inl e, u))
           | Inr bkt1 \<Rightarrow> (Inr (setScenariosBucket tx bkt1), u)))"

definition DeleteScenario :: "tx \<Rightarrow> string \<Rightarrow> error option \<times> tx" where
  "DeleteScenario db id' =
     (case Update db (DeleteScenario_tx id') () of (r, db', u) \<Rightarrow> (r, db'))"

section \<open>Vocabulary of the properties\<close>

text \<open>
  The definitions of this section are not part of the program: they name what the
  properties below talk about.
\<close>

subsection \<open>What the store accepts\<close>

text \<open>
  A key that \<open>Put\<close> accepts and a value that it accepts; a definition whose writes
  the store accepts (\<open>storable\<close>); a definition that is a Go value, the keys of each
  of its maps distinct (\<open>wf_definition\<close>).
\<close>

definition valid_key :: "string \<Rightarrow> bool" where
  "valid_key k = (k \<noteq> [] \<and> int (length k) \<le> MaxKeySize)"

definition valid_value :: "string \<Rightarrow> bool" where
  "valid_value v = (int (length v) \<le> MaxValueSize)"

definition all_leaves :: "bucket \<Rightarrow> bool" where
  "all_leaves b = (\<forall>(k, n) \<in> set b. \<exists>v. n = Leaf v)"

definition storable :: "ScenarioDefinition \<Rightarrow> bool" where
  "storable sdef =
     ((\<forall>(name, object) \<in> set (Objects sdef).
         name \<noteq> [] \<and> valid_value (Type object) \<and> valid_value (Reference object)) \<and>
      (\<forall>(k, v) \<in> set (Seed sdef). v \<noteq> [] \<longrightarrow> valid_key k \<and> valid_value v) \<and>
      (\<forall>(k, v) \<in> set (Benchmark sdef). v \<noteq> [] \<longrightarrow> valid_key k \<and> valid_value v))"

definition wf_definition :: "ScenarioDefinition \<Rightarrow> bool" where
  "wf_definition sdef =
     (distinct (map fst (Objects sdef)) \<and> distinct (map fst (Seed sdef)) \<and>
      distinct (map fst (Benchmark sdef)))"

subsection \<open>What a write leaves and what a read returns\<close>

text \<open>
  \<open>prune\<close> is a string map without its entries of empty value and \<open>leaves\<close> the
  content of the sub-bucket that holds a string map. \<open>object_bucket\<close> is the content
  of the bucket of one object and \<open>stored\<close> the object that is read back from it.
  \<open>pruned\<close> is the definition as the caller sees it after a write, \<open>decoded\<close> the
  definition as it is read back.
\<close>

definition prune :: "(string \<times> string) list \<Rightarrow> (string \<times> string) list" where
  "prune m = filter (\<lambda>(k, v). v \<noteq> []) m"

definition leaves :: "(string \<times> string) list \<Rightarrow> bucket" where
  "leaves m = map (\<lambda>(k, v). (k, Leaf v)) m"

definition stored :: "ObjectDefinition \<Rightarrow> ObjectDefinition" where
  "stored object = \<lparr>Type = Type object, Reference = Reference object, Chunker = [], Layout = []\<rparr>"

definition object_bucket :: "ObjectDefinition \<Rightarrow> bucket" where
  "object_bucket object =
     [(bucketKeyType, Leaf (Type object)), (bucketKeyReference, Leaf (Reference object))]"

definition object_buckets :: "(string \<times> ObjectDefinition) list \<Rightarrow> bucket" where
  "object_buckets objects = map (\<lambda>(name, object). (name, Nested (object_bucket object))) objects"

definition stored_objects :: "(string \<times> ObjectDefinition) list \<Rightarrow> (string \<times> ObjectDefinition) list" where
  "stored_objects objects = map (\<lambda>(name, object). (name, stored object)) objects"

definition pruned :: "ScenarioDefinition \<Rightarrow> ScenarioDefinition" where
  "pruned sdef = sdef\<lparr>Seed := prune (Seed sdef), Benchmark := prune (Benchmark sdef)\<rparr>"

definition decoded :: "ScenarioDefinition \<Rightarrow> ScenarioDefinition" where
  "decoded sdef =
     \<lparr>Objects = stored_objects (Objects sdef), Seed = prune (Seed sdef),
      Benchmark = prune (Benchmark sdef)\<rparr>"

text \<open>
  A definition bucket holds a definition, and a record bucket holds a record, when the
  reserved keys carry what the write of that definition, or record, puts there.
\<close>

definition holds_definition :: "bucket \<Rightarrow> ScenarioDefinition \<Rightarrow> bool" where
  "holds_definition dbkt sdef =
     (Bucket dbkt bucketKeyObjects =
        (if Objects sdef = [] then None else Some (object_buckets (Objects sdef))) \<and>
      Bucket dbkt bucketKeySeed =
        (if Seed sdef = [] then None else Some (leaves (prune (Seed sdef)))) \<and>
      Bucket dbkt bucketKeyBenchmark =
        (if Benchmark sdef = [] then None else Some (leaves (prune (Benchmark sdef)))))"

definition holds_record :: "bucket \<Rightarrow> Scenario \<Rightarrow> bool" where
  "holds_record cbkt scenario =
     (Get cbkt bucketKeyCreatedAt = Some (marshalTime (CreatedAt scenario)) \<and>
      Get cbkt bucketKeyUpdatedAt = Some (marshalTime (UpdatedAt scenario)) \<and>
      Get cbkt bucketKeyID = Some (ID scenario) \<and>
      (\<exists>dbkt. Bucket cbkt bucketKeyDefinition = Some dbkt \<and>
         holds_definition dbkt (Definition scenario)))"

definition id_of :: "bucket \<Rightarrow> string \<Rightarrow> string" where
  "id_of bkt i = (case Get bkt bucketKeyID of None \<Rightarrow> i | Some v \<Rightarrow> v)"

subsection \<open>States of the store\<close>

text \<open>
  \<open>scenarios_of\<close> is the content of the top-level bucket, empty when the bucket is
  absent. A record exists when its id-bucket does. \<open>records_only\<close> says that every
  key of the top-level bucket is a bucket, and \<open>listable\<close> that each of them reads
  back as a record under its own id; both hold of every store that the operations
  build from the empty one.
\<close>

definition scenarios_of :: "tx \<Rightarrow> bucket" where
  "scenarios_of db = (case getScenariosBucket db of None \<Rightarrow> [] | Some bkt \<Rightarrow> bkt)"

definition exists_record :: "tx \<Rightarrow> string \<Rightarrow> bool" where
  "exists_record db i =
     (case getScenariosBucket db of None \<Rightarrow> False | Some bkt \<Rightarrow> Bucket bkt i \<noteq> None)"


definition listable :: "bucket \<Rightarrow> bool" where
  "listable bkt =
     (distinct (map fst bkt) \<and>
      (\<forall>(k, n) \<in> set bkt. \<exists>cbkt scenario.
          n = Nested cbkt \<and> readScenario cbkt (zeroScenario\<lparr>ID := k\<rparr>) = Inr scenario \<and>
          ID scenario = k))"


subsection \<open>Sample inputs\<close>

definition sample_object :: ObjectDefinition where
  "sample_object = \<lparr>Type = ''oci-image'', Reference = ''r1'', Chunker = ''c'', Layout = ''l''\<rparr>"

definition sample_scenario :: Scenario where
  "sample_scenario =
     \<lparr>ID = ''s1'',
      Definition = \<lparr>Objects = [(''a'', sample_object), (''b'', sample_object)],
                    Seed = [(''q'', ''act''), (''e'', [])], Benchmark = [(''z'', [])]\<rparr>,
      CreatedAt = 7, UpdatedAt = 8\<rparr>"

definition sample_db :: tx where
  "sample_db = snd (CreateScenario [] 12 sample_scenario)"

definition other_scenario :: Scenario where
  "other_scenario =
     \<lparr>ID = ''s1'',
      Definition = \<lparr>Objects = [(''c'', sample_object)], Seed = [], Benchmark = [(''w'', ''x'')]\<rparr>,
      CreatedAt = 0, UpdatedAt = 0\<rparr>"

definition shrunk_scenario :: Scenario where
  "shrunk_scenario =
     \<lparr>ID = ''s1'',
      Definition = \<lparr>Objects = [(''a'', sample_object)], Seed = [], Benchmark = []\<rparr>,
      CreatedAt = 3, UpdatedAt = 4\<rparr>"



definition keyless_scenario :: Scenario where
  "keyless_scenario =
     \<lparr>ID = ''s1'',
      Definition = \<lparr>Objects = [], Seed = [([], ''act'')], Benchmark = []\<rparr>,
      CreatedAt = 0, UpdatedAt = 0\<rparr>"

definition db_x :: tx where
  "db_x = snd (CreateScenario [] 1 (zeroScenario\<lparr>ID := ''x''\<rparr>))"

definition db_xy :: tx where
  "db_xy = snd (CreateScenario db_x 2 (sample_scenario\<lparr>ID := ''y''\<rparr>))"

definition db_xyz :: tx where
  "db_xyz = snd (CreateScenario db_xy 3 (zeroScenario\<lparr>ID := ''z''\<rparr>))"

section \<open>Properties\<close>

lemmas bucketKey_defs =
  bucketKeyScenarios_def bucketKeyID_def bucketKeyCreatedAt_def bucketKeyUpdatedAt_def
  bucketKeyDefinition_def bucketKeyObjects_def bucketKeySeed_def bucketKeyBenchmark_def
  bucketKeyType_def bucketKeyReference_def

subsection \<open>Association lists\<close>

lemma update_fresh: "k \<notin> fst ` set al \<Longrightarrow> AList.update k v al = al @ [(k, v)]"
  by (induction al) auto

lemma update_snoc: "k \<notin> fst ` set al \<Longrightarrow> AList.update k v (al @ [(k, w)]) = al @ [(k, v)]"
  by (induction al) auto

lemma delete_fresh: "k \<notin> fst ` set (AList.delete k al)"
  by (induction al) auto

lemma map_of_None_fresh: "map_of al k = None \<Longrightarrow> k \<notin> fst ` set al"
  by (simp add: map_of_eq_None_iff)

lemma Bucket_update_Nested [simp]:
  "Bucket (AList.update n (Nested c) b) n' = (if n' = n then Some c else Bucket b n')"
  by (simp add: Bucket_def update_conv')

lemma Bucket_update_Leaf [simp]:
  "Bucket (AList.update k (Leaf v) b) n = (if n = k then None else Bucket b n)"
  by (simp add: Bucket_def update_conv')

lemma Bucket_delete [simp]:
  "Bucket (AList.delete n b) n' = (if n' = n then None else Bucket b n')"
  by (simp add: Bucket_def delete_conv')

lemma Bucket_set_bucket [simp]:
  "Bucket (set_bucket b n c) n' = (if n' = n then Some c else Bucket b n')"
  by (simp add: set_bucket_def)

lemma Get_update_Leaf [simp]:
  "Get (AList.update k (Leaf v) b) k' = (if k' = k then Some v else Get b k')"
  by (simp add: Get_def update_conv')

lemma Get_update_Nested [simp]:
  "Get (AList.update n (Nested c) b) k = (if k = n then None else Get b k)"
  by (simp add: Get_def update_conv')

lemma Get_delete [simp]:
  "Get (AList.delete n b) k = (if k = n then None else Get b k)"
  by (simp add: Get_def delete_conv')

lemma Get_set_bucket [simp]:
  "Get (set_bucket b n c) k = (if k = n then None else Get b k)"
  by (simp add: set_bucket_def)

lemma Bucket_Nil [simp]: "Bucket [] n = None"
  by (simp add: Bucket_def)

lemma Get_Nil [simp]: "Get [] k = None"
  by (simp add: Get_def)

lemma Put_Inr: "Put b k v = Inr b' \<Longrightarrow> b' = AList.update k (Leaf v) b \<and> k \<noteq> []"
  by (auto simp: Put_def split: if_splits option.splits node.splits)

lemma CreateBucket_Inr:
  "CreateBucket b k = Inr b' \<Longrightarrow> b' = b @ [(k, Nested [])] \<and> k \<noteq> [] \<and> map_of b k = None"
  by (auto simp: CreateBucket_def update_fresh map_of_eq_None_iff split: if_splits option.splits node.splits)

lemma DeleteBucket_Inr:
  "DeleteBucket b k = Inr b' \<Longrightarrow> b' = AList.delete k b"
  by (auto simp: DeleteBucket_def split: option.splits node.splits)

subsection \<open>Timestamps\<close>

lemma digit_char_val: "d < 10 \<Longrightarrow> is_digit (digit_char d) \<and> of_char (digit_char d) - 48 = d"
  by (simp add: is_digit_def digit_char_def)

lemma parse_digits_snoc:
  "parse_digits (cs @ [c]) acc =
     (case parse_digits cs acc of
        None \<Rightarrow> None
      | Some a \<Rightarrow> if is_digit c then Some (10 * a + (of_char c - 48)) else None)"
  by (induction cs arbitrary: acc) auto

lemma parse_marshalTime: "parse_digits (marshalTime n) 0 = Some n"
proof (induction n rule: marshalTime.induct)
  case (1 n)
  show ?case
  proof (cases "n < 10")
    case True
    then show ?thesis
      using digit_char_val [of n] by (simp add: marshalTime.simps [of n])
  next
    case False
    have d: "n mod 10 < 10" by simp
    from False 1 have "parse_digits (marshalTime (n div 10)) 0 = Some (n div 10)" by simp
    with False show ?thesis
      using digit_char_val [OF d]
      by (simp add: marshalTime.simps [of n] parse_digits_snoc)
  qed
qed

lemma marshalTime_nonempty: "marshalTime n \<noteq> []"
  by (simp add: marshalTime.simps [of n])

lemma unmarshal_marshalTime [simp]: "unmarshalTime (marshalTime n) = Some n"
  by (simp add: unmarshalTime_def marshalTime_nonempty parse_marshalTime)

lemma length_marshalTime: "n < 10 ^ k \<Longrightarrow> length (marshalTime n) \<le> Suc k"
proof (induction k arbitrary: n)
  case 0
  then show ?case by (simp add: marshalTime.simps [of 0])
next
  case (Suc k)
  show ?case
  proof (cases "n < 10")
    case True
    then show ?thesis by (simp add: marshalTime.simps [of n])
  next
    case False
    from Suc.prems have "n div 10 < 10 ^ k"
      by (simp add: less_mult_imp_div_less mult.commute)
    from Suc.IH [OF this] False show ?thesis
      by (simp add: marshalTime.simps [of n])
  qed
qed

subsection \<open>String maps\<close>

lemma writeMap_range_pruned:
  "writeMap_range acc m = (Inr b, m') \<Longrightarrow> m' = prune m"
proof (induction m arbitrary: acc b m')
  case Nil
  then show ?case by (simp add: prune_def)
next
  case (Cons p m)
  obtain k v where p: "p = (k, v)" by (cases p)
  show ?case
  proof (cases "v = []")
    case True
    with Cons p show ?thesis by (simp add: prune_def)
  next
    case False
    with Cons.prems p obtain acc' m'' where
      "Put acc k v = Inr acc'" "writeMap_range acc' m = (Inr b, m'')" "m' = (k, v) # m''"
      by (auto split: sum.splits prod.splits)
    with Cons.IH [of acc' b m''] False p show ?thesis by (simp add: prune_def)
  qed
qed

lemma writeMap_range_bucket:
  "writeMap_range acc m = (Inr b, m') \<Longrightarrow> distinct (map fst m) \<Longrightarrow>
   fst ` set m \<inter> fst ` set acc = {} \<Longrightarrow> b = acc @ leaves (prune m)"
proof (induction m arbitrary: acc b m')
  case Nil
  then show ?case by (simp add: prune_def leaves_def)
next
  case (Cons p m)
  obtain k v where p: "p = (k, v)" by (cases p)
  show ?case
  proof (cases "v = []")
    case True
    with Cons.prems p have "writeMap_range acc m = (Inr b, m')" by simp
    moreover from Cons.prems have "distinct (map fst m)" "fst ` set m \<inter> fst ` set acc = {}"
      by auto
    ultimately have "b = acc @ leaves (prune m)" by (rule Cons.IH)
    with True p show ?thesis by (simp add: prune_def)
  next
    case False
    with Cons.prems p obtain acc' m'' where
      put: "Put acc k v = Inr acc'" and rest: "writeMap_range acc' m = (Inr b, m'')"
      by (auto split: sum.splits prod.splits)
    from Cons.prems p have fresh: "k \<notin> fst ` set acc" by auto
    from Put_Inr [OF put] fresh have acc': "acc' = acc @ [(k, Leaf v)]"
      by (simp add: update_fresh)
    from Cons.prems p have "distinct (map fst m)" "fst ` set m \<inter> fst ` set acc' = {}"
      by (auto simp: acc')
    with rest have "b = acc' @ leaves (prune m)" by (rule Cons.IH)
    with False p acc' show ?thesis by (simp add: prune_def leaves_def)
  qed
qed

lemma Put_Leaf_ok:
  "valid_key k \<Longrightarrow> valid_value v \<Longrightarrow> \<forall>c. map_of b k \<noteq> Some (Nested c) \<Longrightarrow>
   Put b k v = Inr (AList.update k (Leaf v) b)"
  by (auto simp: Put_def valid_key_def valid_value_def split: option.splits node.splits)

lemma all_leaves_map_of: "all_leaves b \<Longrightarrow> map_of b k \<noteq> Some (Nested c)"
  by (auto simp: all_leaves_def dest!: map_of_SomeD)

lemma all_leaves_update: "all_leaves b \<Longrightarrow> all_leaves (AList.update k (Leaf v) b)"
  by (induction b) (auto simp: all_leaves_def)

lemma writeMap_range_succeeds:
  "\<forall>(k, v) \<in> set m. v \<noteq> [] \<longrightarrow> valid_key k \<and> valid_value v \<Longrightarrow> all_leaves acc \<Longrightarrow>
   \<exists>b m'. writeMap_range acc m = (Inr b, m')"
proof (induction m arbitrary: acc)
  case Nil
  then show ?case by simp
next
  case (Cons p m)
  obtain k v where p: "p = (k, v)" by (cases p)
  show ?case
  proof (cases "v = []")
    case True
    with Cons p show ?thesis by simp
  next
    case False
    with Cons.prems p have "Put acc k v = Inr (AList.update k (Leaf v) acc)"
      by (intro Put_Leaf_ok) (auto simp: all_leaves_map_of)
    moreover from Cons.prems have "\<exists>b m'. writeMap_range (AList.update k (Leaf v) acc) m = (Inr b, m')"
      by (intro Cons.IH) (auto simp: all_leaves_update)
    ultimately show ?thesis using False p by auto
  qed
qed

lemma ForEach_readMap:
  "distinct (map fst m) \<Longrightarrow> fst ` set m \<inter> fst ` set acc = {} \<Longrightarrow>
   ForEach (leaves m) (\<lambda>k v m. Inr (map_set m k (string_of v))) acc = Inr (acc @ m)"
proof (induction m arbitrary: acc)
  case Nil
  then show ?case by (simp add: leaves_def)
next
  case (Cons p m)
  obtain k v where p: "p = (k, v)" by (cases p)
  from Cons.prems p have fresh: "k \<notin> fst ` set acc" by auto
  from Cons.prems p have "distinct (map fst m)" "fst ` set m \<inter> fst ` set (acc @ [(k, v)]) = {}"
    by auto
  then have "ForEach (leaves m) (\<lambda>k v m. Inr (map_set m k (string_of v))) (acc @ [(k, v)])
      = Inr ((acc @ [(k, v)]) @ m)"
    by (rule Cons.IH)
  with fresh p show ?case
    by (simp add: leaves_def map_set_def string_of_def update_fresh)
qed

lemma prune_distinct: "distinct (map fst m) \<Longrightarrow> distinct (map fst (prune m))"
  by (simp add: prune_def distinct_map_filter)

lemma readMap_leaves:
  "Bucket bkt name = Some (leaves (prune m)) \<Longrightarrow> distinct (map fst m) \<Longrightarrow>
   readMap bkt name = Inr (prune m)"
  using ForEach_readMap [of "prune m" "[]"] by (simp add: readMap_def prune_distinct)

lemma readMap_absent: "Bucket bkt name = None \<Longrightarrow> readMap bkt name = Inr []"
  by (simp add: readMap_def)

lemma writeMap_Inr:
  assumes "writeMap bkt name m = (Inr bkt', m')"
  shows "m' = prune m"
    and "distinct (map fst m) \<Longrightarrow>
         Bucket bkt' name = (if m = [] then None else Some (leaves (prune m)))"
    and "n \<noteq> name \<Longrightarrow> Bucket bkt' n = Bucket bkt n"
    and "n \<noteq> name \<Longrightarrow> Get bkt' n = Get bkt n"
proof -
  obtain bkt1 where b1: "bkt1 = (if Bucket bkt name = None then bkt else AList.delete name bkt)"
    and d: "(case Bucket bkt name of Some mbkt \<Rightarrow> DeleteBucket bkt name | None \<Rightarrow> Inr bkt) = Inr bkt1"
    using assms by (auto simp: writeMap_def split: sum.splits option.splits dest: DeleteBucket_Inr)
  have look1: "Bucket bkt1 name = None" by (simp add: b1)
  show "m' = prune m"
  proof (cases "m = []")
    case True
    with assms d show ?thesis by (simp add: writeMap_def prune_def)
  next
    case False
    with assms d obtain mbkt where "writeMap_range [] m = (Inr mbkt, m')"
      by (auto simp: writeMap_def split: sum.splits prod.splits)
    then show ?thesis by (rule writeMap_range_pruned)
  qed
  show "Bucket bkt' name = (if m = [] then None else Some (leaves (prune m)))"
    if "distinct (map fst m)"
  proof (cases "m = []")
    case True
    with assms d have "bkt' = bkt1" by (simp add: writeMap_def)
    with look1 True show ?thesis by simp
  next
    case False
    with assms d obtain bkt2 mbkt where r: "writeMap_range [] m = (Inr mbkt, m')"
      and b': "bkt' = set_bucket bkt2 name mbkt"
      by (auto simp: writeMap_def split: sum.splits prod.splits)
    from writeMap_range_bucket [OF r that] have "mbkt = leaves (prune m)" by simp
    with b' False show ?thesis by simp
  qed
  show "Bucket bkt' n = Bucket bkt n" if "n \<noteq> name"
  proof (cases "m = []")
    case True
    with assms d have "bkt' = bkt1" by (simp add: writeMap_def)
    with that show ?thesis by (simp add: b1)
  next
    case False
    with assms d obtain bkt2 mbkt where c: "CreateBucket bkt1 name = Inr bkt2"
      and b': "bkt' = set_bucket bkt2 name mbkt"
      by (auto simp: writeMap_def split: sum.splits prod.splits)
    from CreateBucket_Inr [OF c] have "bkt2 = AList.update name (Nested []) bkt1"
      by (simp add: update_fresh map_of_eq_None_iff)
    with b' that show ?thesis by (simp add: b1)
  qed
  show "Get bkt' n = Get bkt n" if "n \<noteq> name"
  proof (cases "m = []")
    case True
    with assms d have "bkt' = bkt1" by (simp add: writeMap_def)
    with that show ?thesis by (simp add: b1)
  next
    case False
    with assms d obtain bkt2 mbkt where c: "CreateBucket bkt1 name = Inr bkt2"
      and b': "bkt' = set_bucket bkt2 name mbkt"
      by (auto simp: writeMap_def split: sum.splits prod.splits)
    from CreateBucket_Inr [OF c] have "bkt2 = AList.update name (Nested []) bkt1"
      by (simp add: update_fresh map_of_eq_None_iff)
    with b' that show ?thesis by (simp add: b1)
  qed
qed

lemma CreateBucket_ok:
  "k \<noteq> [] \<Longrightarrow> map_of b k = None \<Longrightarrow> CreateBucket b k = Inr (AList.update k (Nested []) b)"
  by (simp add: CreateBucket_def)

lemma map_of_delete_same [simp]: "map_of (AList.delete k b) k = None"
  by (simp add: delete_conv')

lemma writeMap_succeeds:
  assumes "\<forall>(k, v) \<in> set m. v \<noteq> [] \<longrightarrow> valid_key k \<and> valid_value v"
    and "name \<noteq> []" and "Get bkt name = None"
  shows "\<exists>bkt' m'. writeMap bkt name m = (Inr bkt', m')"
proof -
  from writeMap_range_succeeds [OF assms(1), of "[]"]
  obtain b m' where r: "writeMap_range [] m = (Inr b, m')" by (auto simp: all_leaves_def)
  show ?thesis
  proof (cases "Bucket bkt name")
    case None
    with assms(3) have "map_of bkt name = None"
      by (auto simp: Bucket_def Get_def split: option.splits node.splits)
    with None r assms(2) show ?thesis
      by (simp add: writeMap_def CreateBucket_ok)
  next
    case (Some c)
    then have "DeleteBucket bkt name = Inr (AList.delete name bkt)"
      by (auto simp: Bucket_def DeleteBucket_def split: option.splits node.splits)
    with Some r assms(2) show ?thesis
      by (simp add: writeMap_def CreateBucket_ok)
  qed
qed

subsection \<open>Objects\<close>

lemma putFields_object_Inr:
  "putFields [] [(bucketKeyType, Type object), (bucketKeyReference, Reference object)] = Inr nbkt
   \<Longrightarrow> nbkt = object_bucket object"
  by (auto simp: object_bucket_def bucketKey_defs split: sum.splits dest!: Put_Inr)

lemma putFields_object_ok:
  "valid_value (Type object) \<Longrightarrow> valid_value (Reference object) \<Longrightarrow>
   putFields [] [(bucketKeyType, Type object), (bucketKeyReference, Reference object)]
     = Inr (object_bucket object)"
  by (simp add: object_bucket_def bucketKey_defs Put_def valid_value_def MaxKeySize_def)

lemma readObject_object_bucket: "readObject (object_bucket object) = Inr (stored object)"
  by (simp add: readObject_def object_bucket_def stored_def zeroObject_def string_of_def
      bucketKey_defs)

lemma writeObjects_range_Inr:
  "writeObjects_range acc objects = Inr obkt \<Longrightarrow>
   obkt = acc @ object_buckets objects \<and> distinct (map fst objects) \<and>
   fst ` set objects \<inter> fst ` set acc = {}"
proof (induction objects arbitrary: acc)
  case Nil
  then show ?case by (simp add: object_buckets_def)
next
  case (Cons p objects)
  obtain name object where p: "p = (name, object)" by (cases p)
  from Cons.prems p obtain obkt1 nbkt where c: "CreateBucket acc name = Inr obkt1"
    and f: "putFields [] [(bucketKeyType, Type object), (bucketKeyReference, Reference object)] = Inr nbkt"
    and r: "writeObjects_range (set_bucket obkt1 name nbkt) objects = Inr obkt"
    by (auto split: sum.splits)
  from CreateBucket_Inr [OF c] have o1: "obkt1 = acc @ [(name, Nested [])]"
    and fresh: "name \<notin> fst ` set acc"
    by (auto simp: map_of_eq_None_iff)
  from fresh have s: "set_bucket obkt1 name nbkt = acc @ [(name, Nested (object_bucket object))]"
    using putFields_object_Inr [OF f] by (simp add: set_bucket_def o1 update_snoc)
  from Cons.IH [OF r [unfolded s]] fresh p show ?case
    by (auto simp: object_buckets_def)
qed

lemma writeObjects_range_ok:
  "distinct (map fst objects) \<Longrightarrow> fst ` set objects \<inter> fst ` set acc = {} \<Longrightarrow>
   \<forall>(name, object) \<in> set objects.
      name \<noteq> [] \<and> valid_value (Type object) \<and> valid_value (Reference object) \<Longrightarrow>
   writeObjects_range acc objects = Inr (acc @ object_buckets objects)"
proof (induction objects arbitrary: acc)
  case Nil
  then show ?case by (simp add: object_buckets_def)
next
  case (Cons p objects)
  obtain name object where p: "p = (name, object)" by (cases p)
  from Cons.prems p have fresh: "name \<notin> fst ` set acc" by auto
  then have m: "map_of acc name = None" by (simp add: map_of_eq_None_iff)
  from Cons.prems p have c: "CreateBucket acc name = Inr (AList.update name (Nested []) acc)"
    by (intro CreateBucket_ok m) auto
  from fresh have s: "set_bucket (AList.update name (Nested []) acc) name (object_bucket object)
      = acc @ [(name, Nested (object_bucket object))]"
    by (simp add: set_bucket_def update_fresh update_snoc)
  from Cons.prems p have "writeObjects_range (acc @ [(name, Nested (object_bucket object))]) objects
      = Inr ((acc @ [(name, Nested (object_bucket object))]) @ object_buckets objects)"
    by (intro Cons.IH) auto
  with Cons.prems p c s show ?case
    by (simp add: putFields_object_ok object_buckets_def del: putFields.simps)
qed

lemma writeObjects_Nil_Inr:
  assumes "writeObjects [] objects = Inr bkt'"
  shows "bkt' = (if objects = [] then [] else [(bucketKeyObjects, Nested (object_buckets objects))])"
    and "distinct (map fst objects)"
proof -
  show "bkt' = (if objects = [] then [] else [(bucketKeyObjects, Nested (object_buckets objects))])"
  proof (cases "objects = []")
    case True
    with assms show ?thesis by (simp add: writeObjects_def)
  next
    case False
    with assms obtain bkt2 obkt where c: "CreateBucket [] bucketKeyObjects = Inr bkt2"
      and r: "writeObjects_range [] objects = Inr obkt"
      and b': "bkt' = set_bucket bkt2 bucketKeyObjects obkt"
      by (auto simp: writeObjects_def split: sum.splits)
    from CreateBucket_Inr [OF c] writeObjects_range_Inr [OF r] b' False show ?thesis
      by (simp add: set_bucket_def)
  qed
  show "distinct (map fst objects)"
  proof (cases "objects = []")
    case True
    then show ?thesis by simp
  next
    case False
    with assms obtain obkt where "writeObjects_range [] objects = Inr obkt"
      by (auto simp: writeObjects_def split: sum.splits)
    from writeObjects_range_Inr [OF this] show ?thesis by simp
  qed
qed

lemma writeObjects_Nil_ok:
  assumes "distinct (map fst objects)"
    and "\<forall>(name, object) \<in> set objects.
           name \<noteq> [] \<and> valid_value (Type object) \<and> valid_value (Reference object)"
  shows "writeObjects [] objects =
     Inr (if objects = [] then [] else [(bucketKeyObjects, Nested (object_buckets objects))])"
proof -
  have "writeObjects_range [] objects = Inr ([] @ object_buckets objects)"
    using assms by (intro writeObjects_range_ok) auto
  then show ?thesis
    by (simp add: writeObjects_def CreateBucket_def set_bucket_def bucketKeyObjects_def)
qed

lemma Bucket_object_buckets:
  "distinct (map fst objects) \<Longrightarrow> (name, object) \<in> set objects \<Longrightarrow>
   Bucket (object_buckets objects) name = Some (object_bucket object)"
proof -
  assume d: "distinct (map fst objects)" and m: "(name, object) \<in> set objects"
  have "map fst (object_buckets objects) = map fst objects"
    by (simp add: object_buckets_def case_prod_beta)
  moreover have "(name, Nested (object_bucket object)) \<in> set (object_buckets objects)"
    using m by (force simp: object_buckets_def)
  ultimately have "map_of (object_buckets objects) name = Some (Nested (object_bucket object))"
    using d by (intro map_of_is_SomeI) simp_all
  then show ?thesis by (simp add: Bucket_def)
qed

lemma ForEach_readObjects:
  "distinct (map fst all) \<Longrightarrow> set xs \<subseteq> set all \<Longrightarrow> distinct (map fst xs) \<Longrightarrow>
   fst ` set xs \<inter> fst ` set acc = {} \<Longrightarrow>
   ForEach (object_buckets xs)
     (\<lambda>name v objects.
        case Bucket (object_buckets all) name of
          None \<Rightarrow> Inr objects
        | Some nbkt \<Rightarrow>
            (case readObject nbkt of
               Inl e \<Rightarrow> Inl e
             | Inr object \<Rightarrow> Inr (map_set objects name object)))
     acc = Inr (acc @ stored_objects xs)"
proof (induction xs arbitrary: acc)
  case Nil
  then show ?case by (simp add: object_buckets_def stored_objects_def)
next
  case (Cons p xs)
  obtain name object where p: "p = (name, object)" by (cases p)
  from Cons.prems p have look: "Bucket (object_buckets all) name = Some (object_bucket object)"
    by (intro Bucket_object_buckets) auto
  from Cons.prems p have fresh: "name \<notin> fst ` set acc" by auto
  from Cons.prems p have
    "ForEach (object_buckets xs)
      (\<lambda>name v objects.
        case Bucket (object_buckets all) name of
          None \<Rightarrow> Inr objects
        | Some nbkt \<Rightarrow>
            (case readObject nbkt of
               Inl e \<Rightarrow> Inl e
             | Inr object \<Rightarrow> Inr (map_set objects name object)))
      (acc @ [(name, stored object)]) = Inr ((acc @ [(name, stored object)]) @ stored_objects xs)"
    by (intro Cons.IH) auto
  with look fresh p show ?case
    by (simp add: object_buckets_def stored_objects_def readObject_object_bucket map_set_def
        update_fresh)
qed

lemma readObjects_object_buckets:
  assumes "Bucket bkt bucketKeyObjects = Some (object_buckets objects)"
    and "distinct (map fst objects)"
  shows "readObjects bkt = Inr (stored_objects objects)"
  using ForEach_readObjects [of objects objects "[]"] assms by (simp add: readObjects_def)

lemma readObjects_absent: "Bucket bkt bucketKeyObjects = None \<Longrightarrow> readObjects bkt = Inr []"
  by (simp add: readObjects_def)

subsection \<open>Definitions\<close>

lemma readDefinition_holds:
  assumes "Bucket bkt bucketKeyDefinition = Some dbkt" and "holds_definition dbkt sdef"
    and "wf_definition sdef"
  shows "readDefinition bkt = Inr (decoded sdef)"
proof -
  have o: "readObjects dbkt = Inr (stored_objects (Objects sdef))"
  proof (cases "Objects sdef = []")
    case True
    with assms(2) show ?thesis
      by (simp add: holds_definition_def readObjects_absent stored_objects_def)
  next
    case False
    with assms(2,3) show ?thesis
      by (intro readObjects_object_buckets) (simp_all add: holds_definition_def wf_definition_def)
  qed
  have s: "readMap dbkt bucketKeySeed = Inr (prune (Seed sdef))"
  proof (cases "Seed sdef = []")
    case True
    with assms(2) show ?thesis
      by (simp add: holds_definition_def readMap_absent prune_def)
  next
    case False
    with assms(2,3) show ?thesis
      by (intro readMap_leaves) (simp_all add: holds_definition_def wf_definition_def)
  qed
  have b: "readMap dbkt bucketKeyBenchmark = Inr (prune (Benchmark sdef))"
  proof (cases "Benchmark sdef = []")
    case True
    with assms(2) show ?thesis
      by (simp add: holds_definition_def readMap_absent prune_def)
  next
    case False
    with assms(2,3) show ?thesis
      by (intro readMap_leaves) (simp_all add: holds_definition_def wf_definition_def)
  qed
  from assms(1) o s b show ?thesis
    by (simp add: readDefinition_def decoded_def)
qed

lemma delete_update_fresh:
  "map_of b k = None \<Longrightarrow> AList.update k v b = AList.delete k b @ [(k, v)]"
  by (simp add: update_fresh map_of_eq_None_iff delete_id)

lemma writeDefinition_Inr:
  assumes "writeDefinition bkt sdef = (Inr bkt', sdef')"
  shows "sdef' = pruned sdef"
    and "distinct (map fst (Objects sdef))"
    and "distinct (map fst (Seed sdef)) \<Longrightarrow> distinct (map fst (Benchmark sdef)) \<Longrightarrow>
         \<exists>dbkt. bkt' = AList.delete bucketKeyDefinition bkt @ [(bucketKeyDefinition, Nested dbkt)] \<and>
                holds_definition dbkt sdef"
proof -
  from assms obtain bkt1 bkt2 dbkt1 dbkt2 dbkt3 seed benchmark where
    d: "(case Bucket bkt bucketKeyDefinition of
           Some dbkt \<Rightarrow> DeleteBucket bkt bucketKeyDefinition | None \<Rightarrow> Inr bkt) = Inr bkt1"
    and c: "CreateBucket bkt1 bucketKeyDefinition = Inr bkt2"
    and o: "writeObjects [] (Objects sdef) = Inr dbkt1"
    and s: "writeMap dbkt1 bucketKeySeed (Seed sdef) = (Inr dbkt2, seed)"
    and b: "writeMap dbkt2 bucketKeyBenchmark (Benchmark sdef) = (Inr dbkt3, benchmark)"
    and b': "bkt' = set_bucket bkt2 bucketKeyDefinition dbkt3"
    and sd: "sdef' = sdef\<lparr>Seed := seed, Benchmark := benchmark\<rparr>"
    by (auto simp: writeDefinition_def split: sum.splits prod.splits)
  from sd writeMap_Inr(1) [OF s] writeMap_Inr(1) [OF b] show "sdef' = pruned sdef"
    by (simp add: pruned_def)
  from writeObjects_Nil_Inr(2) [OF o] show "distinct (map fst (Objects sdef))" .
  show "\<exists>dbkt. bkt' = AList.delete bucketKeyDefinition bkt @ [(bucketKeyDefinition, Nested dbkt)] \<and>
                holds_definition dbkt sdef"
    if ds: "distinct (map fst (Seed sdef))" and db: "distinct (map fst (Benchmark sdef))"
  proof -
    have b1: "bkt1 = AList.delete bucketKeyDefinition bkt \<and> map_of bkt1 bucketKeyDefinition = None"
    proof (cases "Bucket bkt bucketKeyDefinition")
      case None
      with d have "bkt1 = bkt" by simp
      with CreateBucket_Inr [OF c] show ?thesis
        by (simp add: delete_id map_of_eq_None_iff)
    next
      case (Some a)
      with d DeleteBucket_Inr [of bkt bucketKeyDefinition bkt1] show ?thesis by simp
    qed
    with CreateBucket_Inr [OF c] b'
    have shape: "bkt' = AList.delete bucketKeyDefinition bkt @ [(bucketKeyDefinition, Nested dbkt3)]"
      by (simp add: set_bucket_def update_snoc delete_fresh)
    have ob: "Bucket dbkt1 bucketKeyObjects =
        (if Objects sdef = [] then None else Some (object_buckets (Objects sdef)))"
      using writeObjects_Nil_Inr(1) [OF o] by (simp add: Bucket_def)
    have "Bucket dbkt3 bucketKeyObjects = Bucket dbkt1 bucketKeyObjects"
      using writeMap_Inr(3) [OF b, of bucketKeyObjects] writeMap_Inr(3) [OF s, of bucketKeyObjects]
      by (simp add: bucketKey_defs)
    moreover have "Bucket dbkt3 bucketKeySeed = Bucket dbkt2 bucketKeySeed"
      using writeMap_Inr(3) [OF b, of bucketKeySeed] by (simp add: bucketKey_defs)
    ultimately have "holds_definition dbkt3 sdef"
      using ob writeMap_Inr(2) [OF s ds] writeMap_Inr(2) [OF b db]
      by (simp add: holds_definition_def)
    with shape show ?thesis by blast
  qed
qed

lemma writeDefinition_succeeds:
  assumes "storable sdef" and "distinct (map fst (Objects sdef))"
    and "Get bkt bucketKeyDefinition = None"
  shows "\<exists>bkt' sdef'. writeDefinition bkt sdef = (Inr bkt', sdef')"
proof -
  obtain bkt1 where d: "(case Bucket bkt bucketKeyDefinition of
           Some dbkt \<Rightarrow> DeleteBucket bkt bucketKeyDefinition | None \<Rightarrow> Inr bkt) = Inr bkt1"
    and m: "map_of bkt1 bucketKeyDefinition = None"
  proof (cases "Bucket bkt bucketKeyDefinition")
    case None
    with assms(3) have "map_of bkt bucketKeyDefinition = None"
      by (auto simp: Bucket_def Get_def split: option.splits node.splits)
    with None that show ?thesis by simp
  next
    case (Some a)
    then have "DeleteBucket bkt bucketKeyDefinition = Inr (AList.delete bucketKeyDefinition bkt)"
      by (auto simp: Bucket_def DeleteBucket_def split: option.splits node.splits)
    with Some that show ?thesis by simp
  qed
  have c: "CreateBucket bkt1 bucketKeyDefinition
      = Inr (AList.update bucketKeyDefinition (Nested []) bkt1)"
    using m by (intro CreateBucket_ok) (simp_all add: bucketKeyDefinition_def)
  obtain dbkt1 where o: "writeObjects [] (Objects sdef) = Inr dbkt1"
    and g1: "Get dbkt1 bucketKeySeed = None" "Get dbkt1 bucketKeyBenchmark = None"
    using writeObjects_Nil_ok [OF assms(2)] assms(1)
    by (auto simp: storable_def Get_def)
  obtain dbkt2 seed where s: "writeMap dbkt1 bucketKeySeed (Seed sdef) = (Inr dbkt2, seed)"
    using writeMap_succeeds [of "Seed sdef" bucketKeySeed dbkt1] assms(1) g1
    by (auto simp: storable_def bucketKeySeed_def)
  have "Get dbkt2 bucketKeyBenchmark = None"
    using writeMap_Inr(4) [OF s, of bucketKeyBenchmark] g1 by (simp add: bucketKey_defs)
  then obtain dbkt3 benchmark where
    b: "writeMap dbkt2 bucketKeyBenchmark (Benchmark sdef) = (Inr dbkt3, benchmark)"
    using writeMap_succeeds [of "Benchmark sdef" bucketKeyBenchmark dbkt2] assms(1)
    by (auto simp: storable_def bucketKeyBenchmark_def)
  from d c o s b show ?thesis by (simp add: writeDefinition_def)
qed

subsection \<open>Records\<close>

lemma Bucket_delete_append [simp]:
  "Bucket (AList.delete k b @ [(k, Nested d)]) n = (if n = k then Some d else Bucket b n)"
  by (auto simp: Bucket_def delete_conv' map_add_def split: option.splits node.splits)

lemma Get_delete_append [simp]:
  "Get (AList.delete k b @ [(k, Nested d)]) n = (if n = k then None else Get b n)"
  by (auto simp: Get_def delete_conv' map_add_def split: option.splits node.splits)

lemma distinct_delete_append:
  "distinct (map fst b) \<Longrightarrow> distinct (map fst (AList.delete k b @ [(k, n)]))"
  using delete_fresh [of k b] by (simp add: distinct_delete)

lemma WriteTimestamps_Inr:
  "WriteTimestamps bkt c u = Inr bkt' \<Longrightarrow>
   bkt' = AList.update bucketKeyUpdatedAt (Leaf (marshalTime u))
            (AList.update bucketKeyCreatedAt (Leaf (marshalTime c)) bkt)"
  by (auto simp: WriteTimestamps_def split: sum.splits dest!: Put_Inr)

lemma writeScenario_Inr:
  assumes "writeScenario bkt scenario = (Inr bkt', scenario')"
  shows "scenario' = scenario\<lparr>Definition := pruned (Definition scenario)\<rparr>"
    and "distinct (map fst (Objects (Definition scenario)))"
    and "distinct (map fst (Seed (Definition scenario))) \<Longrightarrow>
         distinct (map fst (Benchmark (Definition scenario))) \<Longrightarrow> holds_record bkt' scenario"
    and "distinct (map fst bkt) \<Longrightarrow> distinct (map fst bkt')"
    and "Get bkt' bucketKeyCreatedAt = Some (marshalTime (CreatedAt scenario))"
    and "Get bkt' bucketKeyUpdatedAt = Some (marshalTime (UpdatedAt scenario))"
    and "Get bkt' bucketKeyID = Some (ID scenario)"
proof -
  from assms obtain bkt1 bkt2 sdef where
    t: "WriteTimestamps bkt (CreatedAt scenario) (UpdatedAt scenario) = Inr bkt1"
    and d: "writeDefinition bkt1 (Definition scenario) = (Inr bkt2, sdef)"
    and i: "putFields bkt2 [(bucketKeyID, ID scenario)] = Inr bkt'"
    and s': "scenario' = scenario\<lparr>Definition := sdef\<rparr>"
    by (auto simp: writeScenario_def split: sum.splits prod.splits)
  note b1 = WriteTimestamps_Inr [OF t]
  from i have b': "bkt' = AList.update bucketKeyID (Leaf (ID scenario)) bkt2"
    by (auto split: sum.splits dest!: Put_Inr)
  from s' writeDefinition_Inr(1) [OF d]
  show "scenario' = scenario\<lparr>Definition := pruned (Definition scenario)\<rparr>" by simp
  from writeDefinition_Inr(2) [OF d]
  show "distinct (map fst (Objects (Definition scenario)))" .
  have shape: "\<exists>dbkt. bkt2 = AList.delete bucketKeyDefinition bkt1 @ [(bucketKeyDefinition, Nested dbkt)]"
  proof -
    from d obtain b3 b4 d3 where
      "(case Bucket bkt1 bucketKeyDefinition of
           Some dbkt \<Rightarrow> DeleteBucket bkt1 bucketKeyDefinition | None \<Rightarrow> Inr bkt1) = Inr b3"
      and c: "CreateBucket b3 bucketKeyDefinition = Inr b4"
      and b2: "bkt2 = set_bucket b4 bucketKeyDefinition d3"
      by (auto simp: writeDefinition_def split: sum.splits prod.splits)
    then have "b3 = AList.delete bucketKeyDefinition bkt1"
      using CreateBucket_Inr [OF c]
      by (auto simp: delete_id map_of_eq_None_iff split: option.splits dest: DeleteBucket_Inr)
    with CreateBucket_Inr [OF c] b2 show ?thesis
      by (simp add: set_bucket_def update_snoc delete_fresh)
  qed
  then obtain dbkt where
    b2: "bkt2 = AList.delete bucketKeyDefinition bkt1 @ [(bucketKeyDefinition, Nested dbkt)]"
    by blast
  show "Get bkt' bucketKeyCreatedAt = Some (marshalTime (CreatedAt scenario))"
    by (simp add: b' b2 b1 bucketKey_defs)
  show "Get bkt' bucketKeyUpdatedAt = Some (marshalTime (UpdatedAt scenario))"
    by (simp add: b' b2 b1 bucketKey_defs)
  show "Get bkt' bucketKeyID = Some (ID scenario)"
    by (simp add: b')
  show "distinct (map fst bkt')" if "distinct (map fst bkt)"
    using that by (simp add: b' b2 b1 distinct_update distinct_delete_append del: map_append)
  show "holds_record bkt' scenario"
    if "distinct (map fst (Seed (Definition scenario)))"
      and "distinct (map fst (Benchmark (Definition scenario)))"
  proof -
    from writeDefinition_Inr(3) [OF d that] obtain dbkt' where
      "bkt2 = AList.delete bucketKeyDefinition bkt1 @ [(bucketKeyDefinition, Nested dbkt')]"
      and h: "holds_definition dbkt' (Definition scenario)"
      by blast
    then have "Bucket bkt' bucketKeyDefinition = Some dbkt'"
      by (simp add: b' bucketKey_defs)
    with h show ?thesis
      by (simp add: holds_record_def b' b2 b1 bucketKey_defs)
  qed
qed

lemma ForEach_total:
  "(\<And>k v s. \<exists>s'. fn k v s = Inr s') \<Longrightarrow> \<exists>s'. ForEach b fn s = Inr s'"
proof (induction b arbitrary: s)
  case Nil
  then show ?case by simp
next
  case (Cons p b)
  obtain k n where p: "p = (k, n)" by (cases p)
  from Cons.prems obtain s1 where "fn k (case n of Leaf v \<Rightarrow> Some v | Nested c \<Rightarrow> None) s = Inr s1"
    by blast
  with Cons.IH [OF Cons.prems, of s1] p show ?case by simp
qed

lemma readMap_total: "\<exists>m. readMap bkt name = Inr m"
  unfolding readMap_def by (cases "Bucket bkt name") (simp_all add: ForEach_total)

lemma readObject_total: "\<exists>object. readObject nbkt = Inr object"
  unfolding readObject_def by (rule ForEach_total) simp

lemma readObjects_total: "\<exists>objects. readObjects bkt = Inr objects"
proof (cases "Bucket bkt bucketKeyObjects")
  case None
  then show ?thesis by (simp add: readObjects_def)
next
  case (Some obkt)
  have "\<exists>s'. (case Bucket obkt name of
                 None \<Rightarrow> Inr objects
               | Some nbkt \<Rightarrow>
                   (case readObject nbkt of
                      Inl e \<Rightarrow> Inl e
                    | Inr object \<Rightarrow> Inr (map_set objects name object))) = Inr s'"
    for name and objects :: "(string \<times> ObjectDefinition) list"
  proof (cases "Bucket obkt name")
    case None
    then show ?thesis by simp
  next
    case (Some nbkt)
    from readObject_total [of nbkt] obtain object where "readObject nbkt = Inr object" by blast
    with Some show ?thesis by simp
  qed
  then show ?thesis using Some by (simp add: readObjects_def ForEach_total)
qed

lemma readDefinition_total: "\<exists>sdef. readDefinition bkt = Inr sdef"
proof (cases "Bucket bkt bucketKeyDefinition")
  case None
  then show ?thesis by (simp add: readDefinition_def)
next
  case (Some dbkt)
  from readObjects_total [of dbkt] readMap_total [of dbkt bucketKeySeed]
    readMap_total [of dbkt bucketKeyBenchmark] Some
  show ?thesis by (auto simp: readDefinition_def)
qed

lemma ForEach_ID:
  "\<exists>i. ForEach bkt
     (\<lambda>k v sc. case v of None \<Rightarrow> Inr sc
        | Some val \<Rightarrow> if k = bucketKeyID then Inr (sc\<lparr>ID := val\<rparr>) else Inr sc) s
     = Inr (s\<lparr>ID := i\<rparr>)"
proof (induction bkt arbitrary: s)
  case Nil
  have "s = s\<lparr>ID := ID s\<rparr>" by simp
  then show ?case by (metis ForEach.simps(1))
next
  case (Cons p bkt)
  obtain k n where p: "p = (k, n)" by (cases p)
  show ?case
  proof (cases "\<exists>v. n = Leaf v \<and> k = bucketKeyID")
    case True
    then obtain v where "n = Leaf v" "k = bucketKeyID" by blast
    with Cons.IH [of "s\<lparr>ID := v\<rparr>"] p show ?thesis by simp
  next
    case False
    with Cons.IH [of s] p show ?thesis by (cases n) auto
  qed
qed

lemma ForEach_ID_distinct:
  "distinct (map fst bkt) \<Longrightarrow>
   ForEach bkt
     (\<lambda>k v sc. case v of None \<Rightarrow> Inr sc
        | Some val \<Rightarrow> if k = bucketKeyID then Inr (sc\<lparr>ID := val\<rparr>) else Inr sc) s
     = Inr (s\<lparr>ID := id_of bkt (ID s)\<rparr>)"
proof (induction bkt arbitrary: s)
  case Nil
  then show ?case by (simp add: id_of_def)
next
  case (Cons p bkt)
  obtain k n where p: "p = (k, n)" by (cases p)
  from Cons.prems p have fresh: "k \<notin> fst ` set bkt" and d: "distinct (map fst bkt)" by auto
  show ?case
  proof (cases "k = bucketKeyID")
    case True
    with fresh have "Get bkt bucketKeyID = None"
      by (simp add: Get_def map_of_eq_None_iff [THEN iffD2])
    with Cons.IH [OF d] p True show ?thesis
      by (cases n) (simp_all add: id_of_def Get_def)
  next
    case False
    with Cons.IH [OF d, of s] p show ?thesis
      by (cases n) (simp_all add: id_of_def Get_def)
  qed
qed

lemma ReadTimestamps_written:
  "Get bkt bucketKeyCreatedAt = Some (marshalTime c) \<Longrightarrow>
   Get bkt bucketKeyUpdatedAt = Some (marshalTime u) \<Longrightarrow>
   ReadTimestamps bkt s = Inr (s\<lparr>CreatedAt := c, UpdatedAt := u\<rparr>)"
  by (simp add: ReadTimestamps_def readTimestamp_def)

lemma Scenario_all_updated:
  "s\<lparr>CreatedAt := c, UpdatedAt := u, Definition := d, ID := i\<rparr>
     = \<lparr>ID = i, Definition = d, CreatedAt = c, UpdatedAt = u\<rparr>"
  by (cases s) simp

lemma readScenario_written:
  assumes "Get bkt bucketKeyCreatedAt = Some (marshalTime c)"
    and "Get bkt bucketKeyUpdatedAt = Some (marshalTime u)"
  shows "\<exists>i sdef. readDefinition bkt = Inr sdef \<and>
     readScenario bkt s = Inr \<lparr>ID = i, Definition = sdef, CreatedAt = c, UpdatedAt = u\<rparr> \<and>
     (distinct (map fst bkt) \<longrightarrow> i = id_of bkt (ID s))"
proof -
  obtain sdef where r: "readDefinition bkt = Inr sdef" using readDefinition_total by blast
  let ?s = "s\<lparr>CreatedAt := c, UpdatedAt := u, Definition := sdef\<rparr>"
  let ?fn = "\<lambda>k v sc. case v of None \<Rightarrow> Inr sc
        | Some val \<Rightarrow> if k = bucketKeyID then Inr (sc\<lparr>ID := val\<rparr>) else Inr sc"
  have rd: "readScenario bkt s = ForEach bkt ?fn ?s"
    using ReadTimestamps_written [OF assms] r by (simp add: readScenario_def)
  show ?thesis
  proof (cases "distinct (map fst bkt)")
    case True
    from ForEach_ID_distinct [OF True, of ?s] rd r True show ?thesis
      by (simp add: Scenario_all_updated)
  next
    case False
    from ForEach_ID [of bkt ?s] obtain i where "ForEach bkt ?fn ?s = Inr (?s\<lparr>ID := i\<rparr>)"
      by blast
    with rd r False show ?thesis by (simp add: Scenario_all_updated)
  qed
qed

subsection \<open>Operations\<close>

lemma exists_record_iff: "exists_record db i \<longleftrightarrow> Bucket (scenarios_of db) i \<noteq> None"
  by (simp add: exists_record_def scenarios_of_def split: option.splits)

lemma getScenariosBucket_set [simp]: "getScenariosBucket (setScenariosBucket tx b) = Some b"
  by (simp add: getScenariosBucket_def setScenariosBucket_def update_conv')

lemma scenarios_of_set [simp]: "scenarios_of (setScenariosBucket tx b) = b"
  by (simp add: scenarios_of_def)

lemma createScenariosBucket_eq:
  "\<exists>tx1. createScenariosBucket tx = Inr (tx1, scenarios_of tx) \<and>
     (\<forall>b. setScenariosBucket tx1 b = setScenariosBucket tx b)"
  by (cases "map_of tx bucketKeyScenarios")
    (simp_all add: createScenariosBucket_def scenarios_of_def getScenariosBucket_def
      setScenariosBucket_def)

lemma GetScenario_eq:
  "GetScenario db i =
     (case Bucket (scenarios_of db) i of
        None \<Rightarrow> Inl ErrNotFound
      | Some cbkt \<Rightarrow> readScenario cbkt (zeroScenario\<lparr>ID := i\<rparr>))"
  by (simp add: GetScenario_def View_def scenarios_of_def split: option.splits sum.splits)

lemma CreateScenario_Inr:
  assumes "CreateScenario db now sc = (Inr r, db')"
  shows "\<exists>cbkt. ID sc \<noteq> [] \<and> map_of (scenarios_of db) (ID sc) = None \<and>
     writeScenario [] (sc\<lparr>CreatedAt := now, UpdatedAt := now\<rparr>) = (Inr cbkt, r) \<and>
     db' = setScenariosBucket db (scenarios_of db @ [(ID sc, Nested cbkt)])"
proof -
  obtain tx1 where c: "createScenariosBucket db = Inr (tx1, scenarios_of db)"
    and s: "\<And>b. setScenariosBucket tx1 b = setScenariosBucket db b"
    using createScenariosBucket_eq [of db] by blast
  from assms c obtain bkt1 cbkt where cb: "CreateBucket (scenarios_of db) (ID sc) = Inr bkt1"
    and w: "writeScenario [] (sc\<lparr>CreatedAt := now, UpdatedAt := now\<rparr>) = (Inr cbkt, r)"
    and d: "db' = setScenariosBucket tx1 (set_bucket bkt1 (ID sc) cbkt)"
    by (auto simp: CreateScenario_def Update_def CreateScenario_tx_def
        split: sum.splits prod.splits if_splits)
  from CreateBucket_Inr [OF cb] have "set_bucket bkt1 (ID sc) cbkt
      = scenarios_of db @ [(ID sc, Nested cbkt)]"
    by (simp add: set_bucket_def update_snoc map_of_eq_None_iff)
  with CreateBucket_Inr [OF cb] w d s show ?thesis by simp
qed

lemma CreateScenario_exists:
  assumes "exists_record db (ID sc)" and "ID sc \<noteq> []"
  shows "CreateScenario db now sc = (Inl ErrAlreadyExists, db)"
proof -
  obtain tx1 where c: "createScenariosBucket db = Inr (tx1, scenarios_of db)"
    using createScenariosBucket_eq [of db] by blast
  from assms have "CreateBucket (scenarios_of db) (ID sc) = Inl ErrBucketExists"
    by (auto simp: exists_record_iff Bucket_def CreateBucket_def split: option.splits node.splits)
  with c show ?thesis
    by (simp add: CreateScenario_def Update_def CreateScenario_tx_def)
qed

lemma UpdateScenario_Inr:
  assumes "UpdateScenario db now sc = (Inr r, db')"
  shows "\<exists>cbkt cbkt'. ID sc \<noteq> [] \<and> Bucket (scenarios_of db) (ID sc) = Some cbkt \<and>
     writeScenario cbkt (sc\<lparr>UpdatedAt := now\<rparr>) = (Inr cbkt', r) \<and>
     db' = setScenariosBucket db (set_bucket (scenarios_of db) (ID sc) cbkt')"
proof -
  obtain tx1 where c: "createScenariosBucket db = Inr (tx1, scenarios_of db)"
    and s: "\<And>b. setScenariosBucket tx1 b = setScenariosBucket db b"
    using createScenariosBucket_eq [of db] by blast
  from assms have i: "ID sc \<noteq> []" by (auto simp: UpdateScenario_def)
  with assms c obtain cbkt cbkt' where "Bucket (scenarios_of db) (ID sc) = Some cbkt"
    and "writeScenario cbkt (sc\<lparr>UpdatedAt := now\<rparr>) = (Inr cbkt', r)"
    and "db' = setScenariosBucket tx1 (set_bucket (scenarios_of db) (ID sc) cbkt')"
    by (auto simp: UpdateScenario_def Update_def UpdateScenario_tx_def
        split: sum.splits prod.splits option.splits)
  with i s show ?thesis by simp
qed

lemma UpdateScenario_absent:
  assumes "\<not> exists_record db (ID sc)" and "ID sc \<noteq> []"
  shows "UpdateScenario db now sc = (Inl ErrNotFound, db)"
proof -
  obtain tx1 where c: "createScenariosBucket db = Inr (tx1, scenarios_of db)"
    using createScenariosBucket_eq [of db] by blast
  with assms show ?thesis
    by (simp add: exists_record_iff UpdateScenario_def Update_def UpdateScenario_tx_def)
qed

lemma rollback_Create: "fst (CreateScenario db now sc) = Inl e \<Longrightarrow> snd (CreateScenario db now sc) = db"
  by (auto simp: CreateScenario_def Update_def split: prod.splits sum.splits option.splits)

lemma rollback_Update: "fst (UpdateScenario db now sc) = Inl e \<Longrightarrow> snd (UpdateScenario db now sc) = db"
  by (auto simp: UpdateScenario_def Update_def split: prod.splits sum.splits option.splits if_splits)

lemma rollback_Delete: "fst (DeleteScenario db i) = Some e \<Longrightarrow> snd (DeleteScenario db i) = db"
  by (auto simp: DeleteScenario_def Update_def split: prod.splits sum.splits option.splits)





lemma Bucket_snoc_fresh:
  "map_of b k = None \<Longrightarrow>
   Bucket (b @ [(k, Nested c)]) n = (if n = k then Some c else Bucket b n)"
  by (auto simp: Bucket_def map_add_def split: option.splits)

lemma prune_no_empty: "\<forall>(k, v) \<in> set (prune m). v \<noteq> []"
  by (auto simp: prune_def)

lemma written_record:
  assumes "CreateScenario db now sc = (Inr r, db') \<or> UpdateScenario db now sc = (Inr r, db')"
  shows "\<exists>bkt cbkt now'. writeScenario bkt (sc\<lparr>CreatedAt := now', UpdatedAt := now\<rparr>) = (Inr cbkt, r) \<and>
     Bucket (scenarios_of db') (ID sc) = Some cbkt \<and>
     (CreateScenario db now sc = (Inr r, db') \<longrightarrow> now' = now \<and> bkt = []) \<and>
     (UpdateScenario db now sc = (Inr r, db') \<longrightarrow> now' = CreatedAt sc)"
  using assms
proof
  assume c: "CreateScenario db now sc = (Inr r, db')"
  from CreateScenario_Inr [OF c] obtain cbkt where
    "map_of (scenarios_of db) (ID sc) = None"
    "writeScenario [] (sc\<lparr>CreatedAt := now, UpdatedAt := now\<rparr>) = (Inr cbkt, r)"
    "db' = setScenariosBucket db (scenarios_of db @ [(ID sc, Nested cbkt)])"
    by blast
  moreover from this have "UpdateScenario db now sc \<noteq> (Inr r, db')"
    using UpdateScenario_Inr [of db now sc r db'] by (auto simp: Bucket_def)
  ultimately show ?thesis using c by (auto simp: Bucket_snoc_fresh)
next
  assume u: "UpdateScenario db now sc = (Inr r, db')"
  from UpdateScenario_Inr [OF u] obtain cbkt cbkt' where
    b: "Bucket (scenarios_of db) (ID sc) = Some cbkt"
    and w: "writeScenario cbkt (sc\<lparr>UpdatedAt := now\<rparr>) = (Inr cbkt', r)"
    and d: "db' = setScenariosBucket db (set_bucket (scenarios_of db) (ID sc) cbkt')"
    by blast
  from b have "CreateScenario db now sc \<noteq> (Inr r, db')"
    using CreateScenario_Inr [of db now sc r db'] by (auto simp: Bucket_def)
  moreover have "sc\<lparr>CreatedAt := CreatedAt sc, UpdatedAt := now\<rparr> = sc\<lparr>UpdatedAt := now\<rparr>"
    by simp
  ultimately show ?thesis using u w d by (metis Bucket_set_bucket scenarios_of_set)
qed

lemma written_definition:
  assumes "CreateScenario db now sc = (Inr r, db') \<or> UpdateScenario db now sc = (Inr r, db')"
    and "distinct (map fst (Seed (Definition sc)))"
    and "distinct (map fst (Benchmark (Definition sc)))"
  shows "\<exists>cbkt dbkt. Bucket (scenarios_of db') (ID sc) = Some cbkt \<and>
     Bucket cbkt bucketKeyDefinition = Some dbkt \<and> holds_definition dbkt (Definition sc) \<and>
     wf_definition (Definition sc)"
proof -
  from written_record [OF assms(1)] obtain bkt cbkt now' where
    w: "writeScenario bkt (sc\<lparr>CreatedAt := now', UpdatedAt := now\<rparr>) = (Inr cbkt, r)"
    and b: "Bucket (scenarios_of db') (ID sc) = Some cbkt"
    by blast
  from writeScenario_Inr(3) [OF w] assms(2,3)
  have "holds_record cbkt (sc\<lparr>CreatedAt := now', UpdatedAt := now\<rparr>)" by simp
  moreover from writeScenario_Inr(2) [OF w] assms(2,3) have "wf_definition (Definition sc)"
    by (simp add: wf_definition_def)
  ultimately show ?thesis using b by (auto simp: holds_record_def)
qed

lemma Get_after_write:
  assumes "CreateScenario db now sc = (Inr r, db') \<or> UpdateScenario db now sc = (Inr r, db')"
  shows "\<exists>got. GetScenario db' (ID sc) = Inr got \<and> UpdatedAt got = now \<and>
     (CreateScenario db now sc = (Inr r, db') \<longrightarrow> CreatedAt got = now \<and> ID got = ID sc) \<and>
     (UpdateScenario db now sc = (Inr r, db') \<longrightarrow> CreatedAt got = CreatedAt sc) \<and>
     (distinct (map fst (Seed (Definition sc))) \<and>
      distinct (map fst (Benchmark (Definition sc))) \<longrightarrow>
        Definition got = decoded (Definition sc))"
proof -
  from written_record [OF assms] obtain bkt cbkt now' where
    w: "writeScenario bkt (sc\<lparr>CreatedAt := now', UpdatedAt := now\<rparr>) = (Inr cbkt, r)"
    and b: "Bucket (scenarios_of db') (ID sc) = Some cbkt"
    and c: "CreateScenario db now sc = (Inr r, db') \<longrightarrow> now' = now \<and> bkt = []"
    and u: "UpdateScenario db now sc = (Inr r, db') \<longrightarrow> now' = CreatedAt sc"
    by blast
  from readScenario_written [of cbkt now' now "zeroScenario\<lparr>ID := ID sc\<rparr>"]
    writeScenario_Inr(5,6) [OF w]
  obtain j sdef where rd: "readDefinition cbkt = Inr sdef"
    and rs: "readScenario cbkt (zeroScenario\<lparr>ID := ID sc\<rparr>)
      = Inr \<lparr>ID = j, Definition = sdef, CreatedAt = now', UpdatedAt = now\<rparr>"
    and j: "distinct (map fst cbkt) \<longrightarrow> j = id_of cbkt (ID (zeroScenario\<lparr>ID := ID sc\<rparr>))"
    by auto
  have "j = ID sc" if "CreateScenario db now sc = (Inr r, db')"
  proof -
    from that c have "bkt = []" by simp
    with writeScenario_Inr(4) [OF w] have "distinct (map fst cbkt)" by simp
    with j writeScenario_Inr(7) [OF w] show ?thesis by (simp add: id_of_def)
  qed
  moreover have "sdef = decoded (Definition sc)"
    if "distinct (map fst (Seed (Definition sc))) \<and> distinct (map fst (Benchmark (Definition sc)))"
  proof -
    from written_definition [OF assms] that b obtain dbkt where
      "Bucket cbkt bucketKeyDefinition = Some dbkt" "holds_definition dbkt (Definition sc)"
      "wf_definition (Definition sc)"
      by auto
    from readDefinition_holds [OF this] rd show ?thesis by simp
  qed
  ultimately show ?thesis using b rs c u by (simp add: GetScenario_eq)
qed

lemma map_fst_stored_objects [simp]: "map fst (stored_objects objects) = map fst objects"
  by (simp add: stored_objects_def case_prod_beta)

lemma valid_value_marshalTime: "now < 2 ^ 64 \<Longrightarrow> valid_value (marshalTime now)"
proof -
  assume "now < 2 ^ 64"
  then have "now < 10 ^ 20" by simp
  from length_marshalTime [OF this] show ?thesis
    by (simp add: valid_value_def MaxValueSize_def)
qed

lemma WriteTimestamps_Nil_ok:
  "valid_value (marshalTime c) \<Longrightarrow> valid_value (marshalTime u) \<Longrightarrow>
   WriteTimestamps [] c u =
     Inr [(bucketKeyCreatedAt, Leaf (marshalTime c)), (bucketKeyUpdatedAt, Leaf (marshalTime u))]"
  by (simp add: WriteTimestamps_def Put_def valid_value_def MaxKeySize_def bucketKey_defs)

lemma writeScenario_Nil_succeeds:
  assumes "valid_value (marshalTime (CreatedAt sc))" and "valid_value (marshalTime (UpdatedAt sc))"
    and "valid_value (ID sc)" and "storable (Definition sc)"
    and "distinct (map fst (Objects (Definition sc)))"
  shows "\<exists>cbkt sc'. writeScenario [] sc = (Inr cbkt, sc')"
proof -
  let ?b1 = "[(bucketKeyCreatedAt, Leaf (marshalTime (CreatedAt sc))),
              (bucketKeyUpdatedAt, Leaf (marshalTime (UpdatedAt sc)))]"
  have t: "WriteTimestamps [] (CreatedAt sc) (UpdatedAt sc) = Inr ?b1"
    using assms(1,2) by (rule WriteTimestamps_Nil_ok)
  have "Get ?b1 bucketKeyDefinition = None" by (simp add: Get_def bucketKey_defs)
  from writeDefinition_succeeds [OF assms(4,5) this] obtain bkt2 sdef where
    d: "writeDefinition ?b1 (Definition sc) = (Inr bkt2, sdef)" by blast
  from d obtain b3 b4 d3 where
    "(case Bucket ?b1 bucketKeyDefinition of
         Some dbkt \<Rightarrow> DeleteBucket ?b1 bucketKeyDefinition | None \<Rightarrow> Inr ?b1) = Inr b3"
    and c: "CreateBucket b3 bucketKeyDefinition = Inr b4"
    and b2: "bkt2 = set_bucket b4 bucketKeyDefinition d3"
    by (auto simp: writeDefinition_def split: sum.splits prod.splits)
  then have "b3 = ?b1" by (simp add: Bucket_def bucketKey_defs)
  with CreateBucket_Inr [OF c] b2 have "map_of bkt2 bucketKeyID = None"
    by (simp add: set_bucket_def update_conv' bucketKey_defs)
  then have "Put bkt2 bucketKeyID (ID sc) = Inr (AList.update bucketKeyID (Leaf (ID sc)) bkt2)"
    using assms(3) by (intro Put_Leaf_ok) (simp_all add: valid_key_def MaxKeySize_def bucketKeyID_def)
  with t d show ?thesis by (simp add: writeScenario_def)
qed

lemma CreateScenario_succeeds:
  assumes "ID sc \<noteq> []" and "valid_value (ID sc)" and "map_of (scenarios_of db) (ID sc) = None"
    and "now < 2 ^ 64" and "storable (Definition sc)"
    and "distinct (map fst (Objects (Definition sc)))"
  shows "\<exists>r db'. CreateScenario db now sc = (Inr r, db')"
proof -
  obtain tx1 where c: "createScenariosBucket db = Inr (tx1, scenarios_of db)"
    using createScenariosBucket_eq [of db] by blast
  have cb: "CreateBucket (scenarios_of db) (ID sc)
      = Inr (AList.update (ID sc) (Nested []) (scenarios_of db))"
    using assms(1,3) by (rule CreateBucket_ok)
  from writeScenario_Nil_succeeds [of "sc\<lparr>CreatedAt := now, UpdatedAt := now\<rparr>"]
    valid_value_marshalTime [OF assms(4)] assms(2,5,6)
  obtain cbkt sc' where
    "writeScenario [] (sc\<lparr>CreatedAt := now, UpdatedAt := now\<rparr>) = (Inr cbkt, sc')"
    by auto
  with c cb show ?thesis
    by (simp add: CreateScenario_def Update_def CreateScenario_tx_def)
qed

lemma stored_objects_fields:
  "map (\<lambda>(name, object). (name, Type object, Reference object)) (stored_objects objects)
     = map (\<lambda>(name, object). (name, Type object, Reference object)) objects"
  by (simp add: stored_objects_def stored_def case_prod_beta)

lemma ForEach_error:
  "ForEach b fn s = Inl e \<Longrightarrow> (\<And>k v s e. fn k v s = Inl e \<Longrightarrow> P e) \<Longrightarrow> P e"
proof (induction b arbitrary: s)
  case Nil
  then show ?case by simp
next
  case (Cons p b)
  obtain k n where p: "p = (k, n)" by (cases p)
  show ?case
  proof (cases "fn k (case n of Leaf v \<Rightarrow> Some v | Nested c \<Rightarrow> None) s")
    case (Inl e')
    with Cons.prems p show ?thesis by auto
  next
    case (Inr s')
    with Cons.prems(1) p have "ForEach b fn s' = Inl e" by simp
    then show ?thesis using Cons.prems(2) by (rule Cons.IH)
  qed
qed

lemma readScenario_error: "readScenario bkt s = Inl e \<Longrightarrow> e = ErrUnmarshalTime"
proof -
  assume r: "readScenario bkt s = Inl e"
  obtain sdef where d: "readDefinition bkt = Inr sdef" using readDefinition_total by blast
  show ?thesis
  proof (cases "ReadTimestamps bkt s")
    case (Inl e')
    with r have "e = e'" by (simp add: readScenario_def)
    with Inl show ?thesis
      by (auto simp: ReadTimestamps_def readTimestamp_def split: sum.splits option.splits)
  next
    case (Inr s1)
    from ForEach_ID [of bkt "s1\<lparr>Definition := sdef\<rparr>"] r d Inr show ?thesis
      by (auto simp: readScenario_def)
  qed
qed

lemma ListScenarios_eq:
  "ListScenarios db =
     ForEach (scenarios_of db)
       (\<lambda>k v scs.
          case Bucket (scenarios_of db) k of
            None \<Rightarrow> Inl NilBucketPanic
          | Some cbkt \<Rightarrow>
              (case readScenario cbkt (zeroScenario\<lparr>ID := k\<rparr>) of
                 Inl e \<Rightarrow> Inl e
               | Inr scenario \<Rightarrow> Inr (scs @ [scenario])))
       []"
  by (simp add: ListScenarios_def View_def scenarios_of_def split: option.splits sum.splits)

lemma ListScenarios_not_NotFound: "ListScenarios db \<noteq> Inl ErrNotFound"
proof
  assume "ListScenarios db = Inl ErrNotFound"
  then have "ErrNotFound = NilBucketPanic \<or> ErrNotFound = ErrUnmarshalTime"
    unfolding ListScenarios_eq
    by (rule ForEach_error) (auto split: option.splits sum.splits dest: readScenario_error)
  then show False by simp
qed

lemma ForEach_listable:
  "listable bkt \<Longrightarrow> set xs \<subseteq> set bkt \<Longrightarrow>
   \<exists>recs. ForEach xs
       (\<lambda>k v scs.
          case Bucket bkt k of
            None \<Rightarrow> Inl NilBucketPanic
          | Some cbkt \<Rightarrow>
              (case readScenario cbkt (zeroScenario\<lparr>ID := k\<rparr>) of
                 Inl e \<Rightarrow> Inl e
               | Inr scenario \<Rightarrow> Inr (scs @ [scenario])))
       acc = Inr (acc @ recs) \<and> map ID recs = map fst xs"
proof (induction xs arbitrary: acc)
  case Nil
  then show ?case by simp
next
  case (Cons p xs)
  obtain k n where p: "p = (k, n)" by (cases p)
  from Cons.prems p have m: "(k, n) \<in> set bkt" and d: "distinct (map fst bkt)"
    by (auto simp: listable_def)
  from Cons.prems(1) m obtain cbkt scenario where n: "n = Nested cbkt"
    and r: "readScenario cbkt (zeroScenario\<lparr>ID := k\<rparr>) = Inr scenario" and i: "ID scenario = k"
    by (auto simp: listable_def)
  from d m have "map_of bkt k = Some n" by (rule map_of_is_SomeI)
  with n have b: "Bucket bkt k = Some cbkt" by (simp add: Bucket_def)
  from Cons.prems have "set xs \<subseteq> set bkt" by simp
  from Cons.IH [OF Cons.prems(1) this, of "acc @ [scenario]"] obtain recs where
    "ForEach xs
       (\<lambda>k v scs.
          case Bucket bkt k of
            None \<Rightarrow> Inl NilBucketPanic
          | Some cbkt \<Rightarrow>
              (case readScenario cbkt (zeroScenario\<lparr>ID := k\<rparr>) of
                 Inl e \<Rightarrow> Inl e
               | Inr scenario \<Rightarrow> Inr (scs @ [scenario])))
       (acc @ [scenario]) = Inr ((acc @ [scenario]) @ recs)" "map ID recs = map fst xs"
    by blast
  with p n b r i show ?case
    by (intro exI [of _ "scenario # recs"]) simp
qed

lemma ListScenarios_listable:
  "listable (scenarios_of db) \<Longrightarrow>
   \<exists>recs. ListScenarios db = Inr recs \<and> map ID recs = map fst (scenarios_of db)"
  using ForEach_listable [of "scenarios_of db" "scenarios_of db" "[]"]
  by (simp add: ListScenarios_eq)

lemma CreateScenario_listable:
  assumes "CreateScenario db now sc = (Inr r, db')" and "listable (scenarios_of db)"
  shows "listable (scenarios_of db') \<and>
     map fst (scenarios_of db') = map fst (scenarios_of db) @ [ID sc]"
proof -
  from CreateScenario_Inr [OF assms(1)] obtain cbkt where
    fresh: "map_of (scenarios_of db) (ID sc) = None"
    and db': "db' = setScenariosBucket db (scenarios_of db @ [(ID sc, Nested cbkt)])"
    by blast
  from assms(1) have "CreateScenario db now sc = (Inr r, db') \<or>
      UpdateScenario db now sc = (Inr r, db')" by simp
  from Get_after_write [OF this] assms(1) obtain got where
    "GetScenario db' (ID sc) = Inr got" "ID got = ID sc" by blast
  with fresh have "readScenario cbkt (zeroScenario\<lparr>ID := ID sc\<rparr>) = Inr got"
    by (simp add: GetScenario_eq db' Bucket_snoc_fresh)
  with assms(2) fresh \<open>ID got = ID sc\<close> show ?thesis
    by (auto simp: listable_def db' map_of_eq_None_iff)
qed

lemma success_pair: "\<not> isl (fst p) \<Longrightarrow> \<exists>r. p = (Inr r, snd p)"
  by (cases p; cases "fst p") auto

section \<open>Specified properties\<close>

subsection \<open>C1\<close>

text \<open>
  C1, as the code has it. A definition is storable when the store accepts its keys and
  values: object names are not empty, the keys of the Seed and Benchmark entries whose
  value is not empty are not empty, and keys and values are within the size limits of
  the store. For a storable definition (a Go value: keys distinct), \<open>CreateScenario\<close>
  under a non-empty id that is not in use succeeds, and \<open>GetScenario\<close> of the id then
  returns the record with the timestamps of the creation, Objects with the same names,
  each with the Type and Reference given, and Seed and Benchmark equal to the input
  with the entries of empty value stripped.
\<close>

theorem CreateScenario_GetScenario_roundtrip:
  assumes "ID scenario \<noteq> []" and "valid_value (ID scenario)"
    and "map_of (scenarios_of db) (ID scenario) = None"
    and "now < 2 ^ 64"
    and "wf_definition (Definition scenario)" and "storable (Definition scenario)"
  shows "\<exists>r db' got. CreateScenario db now scenario = (Inr r, db') \<and>
     GetScenario db' (ID scenario) = Inr got \<and>
     ID got = ID scenario \<and> CreatedAt got = now \<and> UpdatedAt got = now \<and>
     map (\<lambda>(name, object). (name, Type object, Reference object)) (Objects (Definition got))
       = map (\<lambda>(name, object). (name, Type object, Reference object))
           (Objects (Definition scenario)) \<and>
     Seed (Definition got) = prune (Seed (Definition scenario)) \<and>
     Benchmark (Definition got) = prune (Benchmark (Definition scenario))"
proof -
  from assms(5) have d: "distinct (map fst (Objects (Definition scenario)))"
    "distinct (map fst (Seed (Definition scenario))) \<and>
     distinct (map fst (Benchmark (Definition scenario)))"
    by (simp_all add: wf_definition_def)
  from CreateScenario_succeeds [OF assms(1-4) assms(6) d(1)] obtain r db' where
    c: "CreateScenario db now scenario = (Inr r, db')" by blast
  then have "CreateScenario db now scenario = (Inr r, db') \<or>
      UpdateScenario db now scenario = (Inr r, db')" by simp
  from Get_after_write [OF this] c d(2) obtain got where
    "GetScenario db' (ID scenario) = Inr got" "UpdatedAt got = now" "CreatedAt got = now"
    "ID got = ID scenario" "Definition got = decoded (Definition scenario)"
    by blast
  with c show ?thesis by (simp add: decoded_def stored_objects_fields)
qed

theorem CreateScenario_GetScenario_roundtrip_witness:
  "\<exists>r got. CreateScenario [] 12 sample_scenario = (Inr r, sample_db) \<and>
     GetScenario sample_db ''s1'' = Inr got \<and>
     ID got = ''s1'' \<and> CreatedAt got = 12 \<and> UpdatedAt got = 12 \<and>
     map (\<lambda>(name, object). (name, Type object, Reference object)) (Objects (Definition got))
       = [(''a'', ''oci-image'', ''r1''), (''b'', ''oci-image'', ''r1'')] \<and>
     Seed (Definition got) = [(''q'', ''act'')] \<and>
     Benchmark (Definition got) = []"
proof -
  have a: "ID sample_scenario \<noteq> []" "valid_value (ID sample_scenario)"
    "map_of (scenarios_of []) (ID sample_scenario) = None" "(12 :: nat) < 2 ^ 64"
    "wf_definition (Definition sample_scenario)" "storable (Definition sample_scenario)"
    by (simp_all add: sample_scenario_def sample_object_def valid_value_def valid_key_def
        MaxValueSize_def MaxKeySize_def scenarios_of_def getScenariosBucket_def
        wf_definition_def storable_def)
  have v: "ID sample_scenario = ''s1''"
    "map (\<lambda>(name, object). (name, Type object, Reference object))
        (Objects (Definition sample_scenario))
       = [(''a'', ''oci-image'', ''r1''), (''b'', ''oci-image'', ''r1'')]"
    "prune (Seed (Definition sample_scenario)) = [(''q'', ''act'')]"
    "prune (Benchmark (Definition sample_scenario)) = []"
    by (simp_all add: sample_scenario_def sample_object_def prune_def)
  from CreateScenario_GetScenario_roundtrip [OF a] v show ?thesis
    by (auto simp: sample_db_def)
qed

text \<open>
  The round trip as stated fails: the store refuses an empty key, so a Seed entry with
  an empty key and a value makes \<open>CreateScenario\<close> fail and nothing is stored.
\<close>

theorem CreateScenario_rejects_empty_key_counterexample:
  "CreateScenario [] 12 keyless_scenario = (Inl ErrKeyRequired, []) \<and>
   GetScenario (snd (CreateScenario [] 12 keyless_scenario)) ''s1'' = Inl ErrNotFound"
  by code_simp

text \<open>
  What the amended round trip leaves out: \<open>writeObjects\<close> puts the Type and the
  Reference of an object only, so Chunker and Layout are not in the store and
  \<open>readObjects\<close> returns them empty.
\<close>

lemma Chunker_and_Layout_are_not_stored:
  "writeObjects [] [(''a'', sample_object)]
     = Inr [(bucketKeyObjects, Nested [(''a'', Nested [(bucketKeyType, Leaf ''oci-image''),
                                                    (bucketKeyReference, Leaf ''r1'')])])] \<and>
   readObjects [(bucketKeyObjects, Nested [(''a'', Nested [(bucketKeyType, Leaf ''oci-image''),
                                                    (bucketKeyReference, Leaf ''r1'')])])]
     = Inr [(''a'', \<lparr>Type = ''oci-image'', Reference = ''r1'', Chunker = [], Layout = []\<rparr>)] \<and>
   Chunker sample_object = ''c'' \<and> Layout sample_object = ''l''"
  by code_simp

subsection \<open>C2\<close>

text \<open>
  C2: an operation that returns an error leaves the store exactly as it was before the
  call, whatever the transaction had created or changed before it failed.
\<close>

theorem failed_write_leaves_store_unchanged:
  "(fst (CreateScenario db now1 scenario1) = Inl e1 \<longrightarrow>
      snd (CreateScenario db now1 scenario1) = db) \<and>
   (fst (UpdateScenario db now2 scenario2) = Inl e2 \<longrightarrow>
      snd (UpdateScenario db now2 scenario2) = db) \<and>
   (fst (DeleteScenario db i) = Some e3 \<longrightarrow> snd (DeleteScenario db i) = db)"
  using rollback_Create rollback_Update rollback_Delete by blast

theorem failed_write_leaves_store_unchanged_witness:
  "fst (CreateScenario [] 0 zeroScenario) = Inl ErrBucketNameRequired \<and>
   snd (CreateScenario [] 0 zeroScenario) = [] \<and>
   createScenariosBucket [] = Inr ([(bucketKeyScenarios, [])], []) \<and>
   fst (UpdateScenario [] 0 (zeroScenario\<lparr>ID := ''s1''\<rparr>)) = Inl ErrNotFound \<and>
   snd (UpdateScenario [] 0 (zeroScenario\<lparr>ID := ''s1''\<rparr>)) = [] \<and>
   fst (DeleteScenario [] ''s1'') = Some ErrNotFound \<and>
   snd (DeleteScenario [] ''s1'') = []"
proof -
  have c: "fst (CreateScenario [] 0 zeroScenario) = Inl ErrBucketNameRequired"
    by code_simp
  have b: "createScenariosBucket [] = Inr ([(bucketKeyScenarios, [])], [])"
    by code_simp
  have u: "fst (UpdateScenario [] 0 (zeroScenario\<lparr>ID := ''s1''\<rparr>)) = Inl ErrNotFound"
    by code_simp
  have d: "fst (DeleteScenario [] ''s1'') = Some ErrNotFound"
    by code_simp
  from c b u d show ?thesis
    using failed_write_leaves_store_unchanged
      [of "[]" 0 zeroScenario ErrBucketNameRequired 0 "zeroScenario\<lparr>ID := ''s1''\<rparr>"
        ErrNotFound "''s1''" ErrNotFound]
    by simp
qed

subsection \<open>C3\<close>

text \<open>
  C3: after a successful \<open>UpdateScenario\<close>, \<open>GetScenario\<close> returns a definition that is
  determined by the definition of the update alone: its Objects have exactly the names
  of the new Objects, its Seed and Benchmark are exactly the entries of the new maps
  whose value is not empty, and nothing of what the record held before is left.
\<close>

theorem UpdateScenario_replaces_collections:
  assumes "UpdateScenario db now scenario = (Inr r, db')"
    and "distinct (map fst (Seed (Definition scenario)))"
    and "distinct (map fst (Benchmark (Definition scenario)))"
  shows "\<exists>got. GetScenario db' (ID scenario) = Inr got \<and>
     Definition got = decoded (Definition scenario) \<and>
     map fst (Objects (Definition got)) = map fst (Objects (Definition scenario)) \<and>
     Seed (Definition got) = prune (Seed (Definition scenario)) \<and>
     Benchmark (Definition got) = prune (Benchmark (Definition scenario))"
proof -
  from assms(1) have "CreateScenario db now scenario = (Inr r, db') \<or>
      UpdateScenario db now scenario = (Inr r, db')" by simp
  from Get_after_write [OF this] assms(2,3) obtain got where
    "GetScenario db' (ID scenario) = Inr got" "Definition got = decoded (Definition scenario)"
    by blast
  then show ?thesis by (simp add: decoded_def)
qed

theorem UpdateScenario_replaces_collections_witness:
  "(case GetScenario sample_db ''s1'' of
      Inl e \<Rightarrow> None | Inr got \<Rightarrow> Some (map fst (Objects (Definition got)))) = Some [''a'', ''b''] \<and>
   (\<exists>r db'. UpdateScenario sample_db 15 shrunk_scenario = (Inr r, db') \<and>
      (\<exists>got. GetScenario db' ''s1'' = Inr got \<and>
         map fst (Objects (Definition got)) = [''a''] \<and>
         Seed (Definition got) = [] \<and> Benchmark (Definition got) = []))"
proof -
  have g: "(case GetScenario sample_db ''s1'' of
      Inl e \<Rightarrow> None | Inr got \<Rightarrow> Some (map fst (Objects (Definition got)))) = Some [''a'', ''b'']"
    by code_simp
  have "\<not> isl (fst (UpdateScenario sample_db 15 shrunk_scenario))" by code_simp
  then obtain r where "fst (UpdateScenario sample_db 15 shrunk_scenario) = Inr r"
    by (cases "fst (UpdateScenario sample_db 15 shrunk_scenario)") auto
  then obtain db' where u: "UpdateScenario sample_db 15 shrunk_scenario = (Inr r, db')"
    by (cases "UpdateScenario sample_db 15 shrunk_scenario") auto
  have s: "distinct (map fst (Seed (Definition shrunk_scenario)))"
    "distinct (map fst (Benchmark (Definition shrunk_scenario)))"
    by (simp_all add: shrunk_scenario_def)
  have v: "ID shrunk_scenario = ''s1''"
    "map fst (Objects (Definition shrunk_scenario)) = [''a'']"
    "prune (Seed (Definition shrunk_scenario)) = []"
    "prune (Benchmark (Definition shrunk_scenario)) = []"
    by (simp_all add: shrunk_scenario_def prune_def)
  from UpdateScenario_replaces_collections [OF u s] g u v show ?thesis by auto
qed

subsection \<open>C4\<close>




subsection \<open>C5\<close>

text \<open>
  C5: once a record has been created under an id, creating a record under the same id
  again fails with AlreadyExists whatever the second definition is, the store is left
  as it was, and \<open>GetScenario\<close> of the id returns what it returned before the second
  call: the record of the first definition.
\<close>

theorem CreateScenario_unique:
  assumes "CreateScenario db now scenarioA = (Inr rA, db1)"
    and "ID scenarioB = ID scenarioA"
  shows "CreateScenario db1 now' scenarioB = (Inl ErrAlreadyExists, db1) \<and>
     GetScenario (snd (CreateScenario db1 now' scenarioB)) (ID scenarioA)
       = GetScenario db1 (ID scenarioA) \<and>
     (\<exists>got. GetScenario db1 (ID scenarioA) = Inr got \<and> ID got = ID scenarioA \<and>
        CreatedAt got = now \<and> UpdatedAt got = now \<and>
        (wf_definition (Definition scenarioA) \<longrightarrow>
           Definition got = decoded (Definition scenarioA)))"
proof -
  from CreateScenario_Inr [OF assms(1)] obtain cbkt where i: "ID scenarioA \<noteq> []"
    and fresh: "map_of (scenarios_of db) (ID scenarioA) = None"
    and w: "writeScenario [] (scenarioA\<lparr>CreatedAt := now, UpdatedAt := now\<rparr>) = (Inr cbkt, rA)"
    and db1: "db1 = setScenariosBucket db (scenarios_of db @ [(ID scenarioA, Nested cbkt)])"
    by blast
  from fresh have look: "Bucket (scenarios_of db1) (ID scenarioA) = Some cbkt"
    by (simp add: db1 Bucket_snoc_fresh)
  then have "exists_record db1 (ID scenarioB)"
    by (simp add: exists_record_iff assms(2))
  with i have c: "CreateScenario db1 now' scenarioB = (Inl ErrAlreadyExists, db1)"
    by (simp add: CreateScenario_exists assms(2))
  then have same: "GetScenario (snd (CreateScenario db1 now' scenarioB)) (ID scenarioA)
           = GetScenario db1 (ID scenarioA)"
    by simp
  have d: "distinct (map fst cbkt)" using writeScenario_Inr(4) [OF w] by simp
  from readScenario_written [of cbkt now now "zeroScenario\<lparr>ID := ID scenarioA\<rparr>"]
    writeScenario_Inr(5,6) [OF w]
  obtain j sdef where rd: "readDefinition cbkt = Inr sdef"
    and rs: "readScenario cbkt (zeroScenario\<lparr>ID := ID scenarioA\<rparr>)
      = Inr \<lparr>ID = j, Definition = sdef, CreatedAt = now, UpdatedAt = now\<rparr>"
    and j: "distinct (map fst cbkt) \<longrightarrow> j = id_of cbkt (ID (zeroScenario\<lparr>ID := ID scenarioA\<rparr>))"
    by auto
  from j d writeScenario_Inr(7) [OF w] have "j = ID scenarioA"
    by (simp add: id_of_def)
  moreover have "sdef = decoded (Definition scenarioA)" if wf: "wf_definition (Definition scenarioA)"
  proof -
    from wf writeScenario_Inr(3) [OF w]
    have "holds_record cbkt (scenarioA\<lparr>CreatedAt := now, UpdatedAt := now\<rparr>)"
      by (simp add: wf_definition_def)
    then obtain dbkt where "Bucket cbkt bucketKeyDefinition = Some dbkt"
      and "holds_definition dbkt (Definition scenarioA)"
      by (auto simp: holds_record_def)
    from readDefinition_holds [OF this wf] rd show ?thesis by simp
  qed
  ultimately have "\<exists>got. GetScenario db1 (ID scenarioA) = Inr got \<and> ID got = ID scenarioA \<and>
           CreatedAt got = now \<and> UpdatedAt got = now \<and>
           (wf_definition (Definition scenarioA) \<longrightarrow>
              Definition got = decoded (Definition scenarioA))"
    using look rs by (simp add: GetScenario_eq)
  with c same show ?thesis by blast
qed

theorem CreateScenario_unique_witness:
  "CreateScenario sample_db 13 other_scenario = (Inl ErrAlreadyExists, sample_db) \<and>
   GetScenario (snd (CreateScenario sample_db 13 other_scenario)) ''s1''
     = GetScenario sample_db ''s1'' \<and>
   (\<exists>got. GetScenario sample_db ''s1'' = Inr got \<and> ID got = ''s1'' \<and>
      CreatedAt got = 12 \<and> UpdatedAt got = 12 \<and>
      Definition got = decoded (Definition sample_scenario))"
proof -
  have "\<not> isl (fst (CreateScenario [] 12 sample_scenario))" by code_simp
  then obtain rA where "fst (CreateScenario [] 12 sample_scenario) = Inr rA"
    by (cases "fst (CreateScenario [] 12 sample_scenario)") auto
  then have a: "CreateScenario [] 12 sample_scenario = (Inr rA, sample_db)"
    by (cases "CreateScenario [] 12 sample_scenario") (auto simp: sample_db_def)
  have b: "ID other_scenario = ID sample_scenario"
    by (simp add: other_scenario_def sample_scenario_def)
  have i: "ID sample_scenario = ''s1''" by (simp add: sample_scenario_def)
  have wf: "wf_definition (Definition sample_scenario)"
    by (simp add: wf_definition_def sample_scenario_def)
  from CreateScenario_unique [OF a b, of 13] i wf show ?thesis by simp
qed

subsection \<open>C6\<close>

text \<open>
  C6: \<open>UpdateScenario\<close> fails with InvalidArgument when the id of the record is empty,
  without touching the store; it fails with NotFound when the id is not empty and no
  id-bucket exists for it; and when it succeeds, the record existed before the call and
  exists after it.
\<close>

theorem UpdateScenario_state_machine:
  "(ID scenario = [] \<longrightarrow> UpdateScenario db now scenario = (Inl ErrInvalidArgument, db)) \<and>
   (ID scenario \<noteq> [] \<and> \<not> exists_record db (ID scenario) \<longrightarrow>
      UpdateScenario db now scenario = (Inl ErrNotFound, db)) \<and>
   (UpdateScenario db now scenario = (Inr r, db') \<longrightarrow>
      exists_record db (ID scenario) \<and> exists_record db' (ID scenario))"
proof (intro conjI impI)
  assume "ID scenario = []"
  then show "UpdateScenario db now scenario = (Inl ErrInvalidArgument, db)"
    by (simp add: UpdateScenario_def)
next
  assume "ID scenario \<noteq> [] \<and> \<not> exists_record db (ID scenario)"
  then show "UpdateScenario db now scenario = (Inl ErrNotFound, db)"
    by (simp add: UpdateScenario_absent)
next
  assume u: "UpdateScenario db now scenario = (Inr r, db')"
  from UpdateScenario_Inr [OF u] show "exists_record db (ID scenario)"
    by (auto simp: exists_record_iff)
  from UpdateScenario_Inr [OF u] show "exists_record db' (ID scenario)"
    by (auto simp: exists_record_iff)
qed

theorem UpdateScenario_state_machine_witness:
  "UpdateScenario sample_db 15 zeroScenario = (Inl ErrInvalidArgument, sample_db) \<and>
   UpdateScenario [] 15 sample_scenario = (Inl ErrNotFound, []) \<and>
   isl (fst (UpdateScenario sample_db 15 sample_scenario)) = False \<and>
   exists_record sample_db ''s1'' \<and>
   exists_record (snd (UpdateScenario sample_db 15 sample_scenario)) ''s1''"
proof -
  have a: "ID zeroScenario = []" by (simp add: zeroScenario_def)
  have b: "ID sample_scenario \<noteq> [] \<and> \<not> exists_record [] (ID sample_scenario)"
    by code_simp
  have i: "ID sample_scenario = ''s1''" by (simp add: sample_scenario_def)
  have "\<not> isl (fst (UpdateScenario sample_db 15 sample_scenario))" by code_simp
  then obtain r where "fst (UpdateScenario sample_db 15 sample_scenario) = Inr r"
    by (cases "fst (UpdateScenario sample_db 15 sample_scenario)") auto
  then obtain db' where c: "UpdateScenario sample_db 15 sample_scenario = (Inr r, db')"
    by (cases "UpdateScenario sample_db 15 sample_scenario") auto
  from a b c i show ?thesis
    using UpdateScenario_state_machine [of zeroScenario sample_db 15 r db']
      UpdateScenario_state_machine [of sample_scenario "[]" 15 r db']
      UpdateScenario_state_machine [of sample_scenario sample_db 15 r db']
    by simp
qed

subsection \<open>C7\<close>



subsection \<open>C8\<close>

text \<open>
  C8: \<open>ListScenarios\<close> never fails with NotFound; it returns the empty collection when
  the top-level bucket is absent or holds no entry; and after three successful creations
  on such a store it returns three records, whose ids are exactly the three ids created.
\<close>

theorem ListScenarios_complete:
  "ListScenarios db \<noteq> Inl ErrNotFound \<and>
   (getScenariosBucket db = None \<or> getScenariosBucket db = Some [] \<longrightarrow>
      ListScenarios db = Inr []) \<and>
   ((getScenariosBucket db = None \<or> getScenariosBucket db = Some []) \<and>
    CreateScenario db now1 x = (Inr rx, db1) \<and>
    CreateScenario db1 now2 y = (Inr ry, db2) \<and>
    CreateScenario db2 now3 z = (Inr rz, db3) \<longrightarrow>
      (\<exists>recs. ListScenarios db3 = Inr recs \<and> length recs = 3 \<and>
         set (map ID recs) = {ID x, ID y, ID z}))"
proof (intro conjI impI)
  show "ListScenarios db \<noteq> Inl ErrNotFound" by (rule ListScenarios_not_NotFound)
next
  assume "getScenariosBucket db = None \<or> getScenariosBucket db = Some []"
  then have "scenarios_of db = []" by (auto simp: scenarios_of_def)
  then show "ListScenarios db = Inr []" by (simp add: ListScenarios_eq)
next
  assume a: "(getScenariosBucket db = None \<or> getScenariosBucket db = Some []) \<and>
    CreateScenario db now1 x = (Inr rx, db1) \<and>
    CreateScenario db1 now2 y = (Inr ry, db2) \<and>
    CreateScenario db2 now3 z = (Inr rz, db3)"
  then have e: "scenarios_of db = []" by (auto simp: scenarios_of_def)
  then have l0: "listable (scenarios_of db)" by (simp add: listable_def)
  from a CreateScenario_listable [OF _ l0, of now1 x rx db1] e
  have l1: "listable (scenarios_of db1)" and k1: "map fst (scenarios_of db1) = [ID x]"
    by simp_all
  from a CreateScenario_listable [OF _ l1, of now2 y ry db2] k1
  have l2: "listable (scenarios_of db2)" and k2: "map fst (scenarios_of db2) = [ID x, ID y]"
    by simp_all
  from a CreateScenario_listable [OF _ l2, of now3 z rz db3] k2
  have l3: "listable (scenarios_of db3)" and k3: "map fst (scenarios_of db3) = [ID x, ID y, ID z]"
    by simp_all
  from ListScenarios_listable [OF l3] k3 obtain recs where
    r: "ListScenarios db3 = Inr recs" and m: "map ID recs = [ID x, ID y, ID z]"
    by auto
  from m have "length (map ID recs) = 3" by simp
  then have "length recs = 3" by simp
  moreover from m have "set (map ID recs) = {ID x, ID y, ID z}" by simp
  ultimately show "\<exists>recs. ListScenarios db3 = Inr recs \<and> length recs = 3 \<and>
         set (map ID recs) = {ID x, ID y, ID z}"
    using r by blast
qed

theorem ListScenarios_complete_witness:
  "ListScenarios [] = Inr [] \<and> ListScenarios [(bucketKeyScenarios, [])] = Inr [] \<and>
   (\<exists>recs. ListScenarios db_xyz = Inr recs \<and> length recs = 3 \<and>
      set (map ID recs) = {''x'', ''y'', ''z''})"
proof -
  have e: "getScenariosBucket [] = None" "getScenariosBucket [(bucketKeyScenarios, [])] = Some []"
    by (simp_all add: getScenariosBucket_def)
  have "\<not> isl (fst (CreateScenario [] 1 (zeroScenario\<lparr>ID := ''x''\<rparr>)))" by code_simp
  from success_pair [OF this] obtain rx where
    cx: "CreateScenario [] 1 (zeroScenario\<lparr>ID := ''x''\<rparr>) = (Inr rx, db_x)"
    by (auto simp: db_x_def)
  have "\<not> isl (fst (CreateScenario db_x 2 (sample_scenario\<lparr>ID := ''y''\<rparr>)))" by code_simp
  from success_pair [OF this] obtain ry where
    cy: "CreateScenario db_x 2 (sample_scenario\<lparr>ID := ''y''\<rparr>) = (Inr ry, db_xy)"
    by (auto simp: db_xy_def)
  have "\<not> isl (fst (CreateScenario db_xy 3 (zeroScenario\<lparr>ID := ''z''\<rparr>)))" by code_simp
  from success_pair [OF this] obtain rz where
    cz: "CreateScenario db_xy 3 (zeroScenario\<lparr>ID := ''z''\<rparr>) = (Inr rz, db_xyz)"
    by (auto simp: db_xyz_def)
  from e cx cy cz show ?thesis
    using ListScenarios_complete [of "[]" 1 "zeroScenario\<lparr>ID := ''x''\<rparr>" rx db_x
        2 "sample_scenario\<lparr>ID := ''y''\<rparr>" ry db_xy 3 "zeroScenario\<lparr>ID := ''z''\<rparr>" rz db_xyz]
      ListScenarios_complete [of "[(bucketKeyScenarios, [])]"]
    by simp
qed

subsection \<open>C9\<close>




subsection \<open>C10\<close>

text \<open>
  C10: the record that a successful \<open>CreateScenario\<close> or \<open>UpdateScenario\<close> returns
  carries the pruned Seed and Benchmark maps: the entries of the maps passed in whose
  value is not empty, and no entry with an empty value.
\<close>

theorem returned_maps_are_pruned:
  "(CreateScenario db now scenario = (Inr r, db') \<or>
    UpdateScenario db now scenario = (Inr r, db')) \<longrightarrow>
   Seed (Definition r) = prune (Seed (Definition scenario)) \<and>
   Benchmark (Definition r) = prune (Benchmark (Definition scenario)) \<and>
   (\<forall>(k, v) \<in> set (Seed (Definition r)). v \<noteq> []) \<and>
   (\<forall>(k, v) \<in> set (Benchmark (Definition r)). v \<noteq> [])"
proof
  assume "CreateScenario db now scenario = (Inr r, db') \<or>
    UpdateScenario db now scenario = (Inr r, db')"
  then obtain bkt bkt' sc where w: "writeScenario bkt sc = (Inr bkt', r)"
    and d: "Definition sc = Definition scenario"
  proof
    assume "CreateScenario db now scenario = (Inr r, db')"
    from CreateScenario_Inr [OF this] that show ?thesis by force
  next
    assume "UpdateScenario db now scenario = (Inr r, db')"
    from UpdateScenario_Inr [OF this] that show ?thesis by force
  qed
  from writeScenario_Inr(1) [OF w] d have "Definition r = pruned (Definition scenario)"
    by simp
  then show "Seed (Definition r) = prune (Seed (Definition scenario)) \<and>
   Benchmark (Definition r) = prune (Benchmark (Definition scenario)) \<and>
   (\<forall>(k, v) \<in> set (Seed (Definition r)). v \<noteq> []) \<and>
   (\<forall>(k, v) \<in> set (Benchmark (Definition r)). v \<noteq> [])"
    using prune_no_empty by (simp add: pruned_def)
qed

theorem returned_maps_are_pruned_witness:
  "(\<exists>r. CreateScenario [] 12 sample_scenario = (Inr r, sample_db) \<and>
      Seed (Definition r) = [(''q'', ''act'')] \<and> Benchmark (Definition r) = []) \<and>
   (\<exists>r db'. UpdateScenario sample_db 15 sample_scenario = (Inr r, db') \<and>
      Seed (Definition r) = [(''q'', ''act'')] \<and> Benchmark (Definition r) = [])"
proof -
  have "\<not> isl (fst (CreateScenario [] 12 sample_scenario))" by code_simp
  then obtain r1 where "fst (CreateScenario [] 12 sample_scenario) = Inr r1"
    by (cases "fst (CreateScenario [] 12 sample_scenario)") auto
  then have a: "CreateScenario [] 12 sample_scenario = (Inr r1, sample_db)"
    by (cases "CreateScenario [] 12 sample_scenario") (auto simp: sample_db_def)
  have "\<not> isl (fst (UpdateScenario sample_db 15 sample_scenario))" by code_simp
  then obtain r2 where "fst (UpdateScenario sample_db 15 sample_scenario) = Inr r2"
    by (cases "fst (UpdateScenario sample_db 15 sample_scenario)") auto
  then obtain db2 where b: "UpdateScenario sample_db 15 sample_scenario = (Inr r2, db2)"
    by (cases "UpdateScenario sample_db 15 sample_scenario") auto
  have p: "prune (Seed (Definition sample_scenario)) = [(''q'', ''act'')]"
    "prune (Benchmark (Definition sample_scenario)) = []"
    by (simp_all add: prune_def sample_scenario_def)
  from a b p show ?thesis
    using returned_maps_are_pruned [of "[]" 12 sample_scenario r1 sample_db]
      returned_maps_are_pruned [of sample_db 15 sample_scenario r2 db2]
    by simp
qed

end
